theory Spec2Isabelle
  imports Main
begin

section \<open>JavaScript values\<close>

text \<open>
  The reader stores whatever the caller passes in \<open>opts\<close> and whatever the server sends
  as \<open>last_seq\<close>, and it tests these values for truthiness, so they are modelled as
  JavaScript primitives. Numbers are the integers that are doubles (counts, sizes, status
  codes) and the value \<open>NaN\<close>; fractions and infinities are outside the model, and an
  integer that is not a double stands for no value of JavaScript.
\<close>

datatype jsval = JUndefined | JNull | JBool bool | JNum int | JNaN | JStr string

text \<open>ToBoolean: what \<open>if (v)\<close> and \<open>v && ...\<close> test.\<close>

fun truthy :: "jsval \<Rightarrow> bool" where
  "truthy JUndefined = False"
| "truthy JNull = False"
| "truthy (JBool b) = b"
| "truthy (JNum n) = (n \<noteq> 0)"
| "truthy JNaN = False"
| "truthy (JStr s) = (s \<noteq> [])"

text \<open>
  A number of JavaScript is a double. The integers up to \<open>2 ^ 53\<close> in magnitude are
  doubles, and a larger integer is rounded to the nearest double, which is again an
  integer: the nearest multiple of \<open>2 ^ e\<close>, where \<open>e\<close> is the number of its bits
  beyond 53, the even one of two that are equally near. (Results of magnitude \<open>2 ^ 1024\<close>
  or more, infinite in JavaScript, are outside the model.)
\<close>

fun bits :: "nat \<Rightarrow> nat" where
  "bits n = (if n = 0 then 0 else Suc (bits (n div 2)))"

declare bits.simps [simp del]

definition round_even :: "nat \<Rightarrow> nat \<Rightarrow> nat" where
  "round_even x e =
     (let q = x div 2 ^ e; r = x mod 2 ^ e
      in (if 2 * r > 2 ^ e \<or> (2 * r = 2 ^ e \<and> odd q) then q + 1 else q) * 2 ^ e)"

definition to_double :: "int \<Rightarrow> int" where
  "to_double x =
     (if \<bar>x\<bar> \<le> 2 ^ 53 then x
      else sgn x * int (round_even (nat \<bar>x\<bar>) (bits (nat \<bar>x\<bar>) - 53)))"

text \<open>
  ToNumber, with \<open>None\<close> for NaN. A string is read by the grammar of numeric strings:
  blanks around it are dropped (a character of a string is a code unit below 256, so the
  blanks are 9 to 13, 32 and 160), the empty string is 0, \<open>0x\<close>, \<open>0o\<close> and \<open>0b\<close> start
  an unsigned literal in base 16, 8 and 2, and a decimal literal has an optional sign,
  digits with an optional fraction, and an optional exponent. The value is rounded to a
  double. A literal whose value is not an integer, and \<open>Infinity\<close>, have no counterpart
  among the numbers of the model and are read as NaN.
\<close>

definition is_digit :: "char \<Rightarrow> bool" where
  "is_digit c \<longleftrightarrow> 48 \<le> (of_char c :: nat) \<and> (of_char c :: nat) \<le> 57"

definition is_blank :: "char \<Rightarrow> bool" where
  "is_blank c \<longleftrightarrow> (of_char c :: nat) \<in> {9, 10, 11, 12, 13, 32, 160}"

definition trim :: "string \<Rightarrow> string" where
  "trim s = rev (dropWhile is_blank (rev (dropWhile is_blank s)))"

definition digit_of :: "char \<Rightarrow> nat option" where
  "digit_of c =
     (let k = (of_char c :: nat)
      in if 48 \<le> k \<and> k \<le> 57 then Some (k - 48)
         else if 97 \<le> k \<and> k \<le> 102 then Some (k - 87)
         else if 65 \<le> k \<and> k \<le> 70 then Some (k - 55)
         else None)"

fun radix :: "nat \<Rightarrow> string \<Rightarrow> nat \<Rightarrow> nat option" where
  "radix b [] acc = Some acc"
| "radix b (c # cs) acc =
     (case digit_of c of
        None \<Rightarrow> None
      | Some d \<Rightarrow> if d < b then radix b cs (b * acc + d) else None)"

definition digits_in :: "nat \<Rightarrow> string \<Rightarrow> nat option" where
  "digits_in b s = (if s = [] then None else radix b s 0)"

definition exponent_part :: "string \<Rightarrow> int option" where
  "exponent_part s =
     (case s of
        [] \<Rightarrow> Some 0
      | c # cs \<Rightarrow>
          if c = CHR ''e'' \<or> c = CHR ''E'' then
            (case cs of
               [] \<Rightarrow> None
             | d # ds \<Rightarrow>
                 if d = CHR ''-'' then map_option (\<lambda>n. - int n) (digits_in 10 ds)
                 else if d = CHR ''+'' then map_option int (digits_in 10 ds)
                 else map_option int (digits_in 10 cs))
          else None)"

text \<open>\<open>m\<close> times 10 to the \<open>k\<close>, when that is an integer.\<close>

definition scale :: "int \<Rightarrow> int \<Rightarrow> int option" where
  "scale m k =
     (if 0 \<le> k then Some (m * 10 ^ nat k)
      else if m mod 10 ^ nat (- k) = 0 then Some (m div 10 ^ nat (- k))
      else None)"

definition decimal_literal :: "string \<Rightarrow> int option" where
  "decimal_literal s =
     (let ip = takeWhile is_digit s;
          r1 = dropWhile is_digit s;
          fp = (case r1 of [] \<Rightarrow> [] | c # cs \<Rightarrow> if c = CHR ''.'' then takeWhile is_digit cs else []);
          r2 = (case r1 of [] \<Rightarrow> [] | c # cs \<Rightarrow> if c = CHR ''.'' then dropWhile is_digit cs else r1)
      in if ip = [] \<and> fp = [] then None
         else (case radix 10 (ip @ fp) 0 of
                 None \<Rightarrow> None
               | Some m \<Rightarrow>
                   (case exponent_part r2 of
                      None \<Rightarrow> None
                    | Some e \<Rightarrow> scale (int m) (e - int (length fp)))))"

definition prefixed :: "string \<Rightarrow> (nat \<times> string) option" where
  "prefixed s =
     (case s of
        c # d # ds \<Rightarrow>
          if c = CHR ''0'' \<and> (d = CHR ''x'' \<or> d = CHR ''X'') then Some (16, ds)
          else if c = CHR ''0'' \<and> (d = CHR ''o'' \<or> d = CHR ''O'') then Some (8, ds)
          else if c = CHR ''0'' \<and> (d = CHR ''b'' \<or> d = CHR ''B'') then Some (2, ds)
          else None
      | _ \<Rightarrow> None)"

definition StringToNumber :: "string \<Rightarrow> int option" where
  "StringToNumber s =
     (case trim s of
        [] \<Rightarrow> Some 0
      | c # cs \<Rightarrow>
          (case prefixed (c # cs) of
             Some (b, ds) \<Rightarrow> map_option (\<lambda>n. to_double (int n)) (digits_in b ds)
           | None \<Rightarrow>
               if c = CHR ''-'' then map_option (\<lambda>v. to_double (- v)) (decimal_literal cs)
               else if c = CHR ''+'' then map_option to_double (decimal_literal cs)
               else map_option to_double (decimal_literal (c # cs))))"

fun ToNumber :: "jsval \<Rightarrow> int option" where
  "ToNumber JUndefined = None"
| "ToNumber JNull = Some 0"
| "ToNumber (JBool b) = Some (if b then 1 else 0)"
| "ToNumber (JNum n) = Some n"
| "ToNumber JNaN = None"
| "ToNumber (JStr s) = StringToNumber s"

text \<open>\<open>n < v\<close> where the left operand is a number: false as soon as \<open>v\<close> is NaN.\<close>

definition num_lt :: "int \<Rightarrow> jsval \<Rightarrow> bool" where
  "num_lt n v = (case ToNumber v of None \<Rightarrow> False | Some m \<Rightarrow> n < m)"

text \<open>
  \<open>v - n\<close> and \<open>Math.min(a, b)\<close>: NaN as soon as an operand is. The difference is
  rounded to a double; the minimum is one of its operands.
\<close>

definition js_sub :: "jsval \<Rightarrow> int \<Rightarrow> jsval" where
  "js_sub v n = (case ToNumber v of None \<Rightarrow> JNaN | Some m \<Rightarrow> JNum (to_double (m - n)))"

definition Math_min :: "jsval \<Rightarrow> jsval \<Rightarrow> jsval" where
  "Math_min a b =
     (case ToNumber a of
        None \<Rightarrow> JNaN
      | Some x \<Rightarrow> (case ToNumber b of None \<Rightarrow> JNaN | Some y \<Rightarrow> JNum (min x y)))"

section \<open>Options, requests, replies and events\<close>

text \<open>
  The \<open>opts\<close> argument of \<open>start\<close> and \<open>get\<close> is an object read by property name;
  \<open>None\<close> is a call without it (\<open>opts = opts || {}\<close>). Reading a property that is
  not there gives \<open>undefined\<close>.
\<close>

type_synonym opts = "string \<rightharpoonup> jsval"

definition opt :: "opts option \<Rightarrow> string \<Rightarrow> jsval" where
  "opt opts k =
     (case opts of
        None \<Rightarrow> JUndefined
      | Some m \<Rightarrow> (case m k of None \<Rightarrow> JUndefined | Some v \<Rightarrow> v))"

text \<open>
  A request is identified by its query string \<open>qs\<close>, an object keyed by parameter
  name; the method and the path are the same for every request of one reader.
\<close>

type_synonym qs = "string \<rightharpoonup> jsval"

text \<open>
  The request callback receives \<open>(err, data)\<close>. \<open>err\<close> is \<open>None\<close> when there is
  no error (\<open>null\<close> or \<open>undefined\<close>), otherwise an object whose numeric \<open>statusCode\<close>
  may be absent; \<open>data\<close> is \<open>None\<close> when it is falsy, otherwise an object whose
  \<open>results\<close> array may be absent. The change records are opaque: the type \<open>'c\<close>.
\<close>

record failure =
  statusCode :: "int option"
  reason :: jsval

record 'c body =
  results :: "'c list option"
  last_seq :: jsval

datatype 'c reply = Reply (err: "failure option") (data: "'c body option")

datatype 'c event =
    EChange 'c
  | EBatch "'c list"
  | ESeq jsval
  | EError "failure option"
  | EEnd

text \<open>
  What the reader does, in order: the requests it issues and the events it emits. The
  handlers of the events are taken to return normally, and a handler of \<open>error\<close> to be
  registered (the emitter of Node throws on an \<open>error\<close> event nobody listens to).
\<close>

datatype 'c action = Request qs | Emit "'c event"

section \<open>The reader with \<open>stop\<close> and \<open>get\<close> (src/unnamed/part_000)\<close>

text \<open>
  The repository holds the class \<open>ChangesReader\<close> twice: src/lib/changesreader.js has
  \<open>maxChanges\<close> and no \<open>stop\<close> or \<open>get\<close>, src/unnamed/part_000 has \<open>stop\<close> and
  \<open>get\<close> and no \<open>maxChanges\<close>. Both are modelled, with the suffixes \<open>_lib\<close> and
  \<open>_p0\<close>. The fields they share come first; \<open>db\<close>, \<open>request\<close> and the emitter
  \<open>ee\<close> are not fields of the model: the requests and the events are its outputs.
\<close>

record changesreader =
  batchSize :: jsval
  since :: jsval
  include_docs :: jsval
  timeout :: int
  heartbeat :: int
  started :: bool

record changesreader_p0 = changesreader +
  stopOnEmptyChanges :: bool
  continue :: bool

text \<open>The fields after \<open>setDefaults()\<close>, which assigns every one of them.\<close>

definition setDefaults_p0 :: changesreader_p0 where
  "setDefaults_p0 =
     \<lparr>batchSize = JNum 100, since = JStr ''now'', include_docs = JBool False,
      timeout = 60000, heartbeat = 5000, started = False,
      stopOnEmptyChanges = False, continue = True\<rparr>"

definition stop_p0 :: "changesreader_p0 \<Rightarrow> changesreader_p0" where
  "stop_p0 r = r\<lparr>continue := False\<rparr>"

text \<open>The query string the loop body builds from the current fields.\<close>

definition req_p0 :: "changesreader_p0 \<Rightarrow> qs" where
  "req_p0 r =
     [''feed'' \<mapsto> JStr ''longpoll'',
      ''timeout'' \<mapsto> JNum (timeout r),
      ''since'' \<mapsto> since r,
      ''limit'' \<mapsto> batchSize r,
      ''heartbeat'' \<mapsto> JNum (heartbeat r),
      ''seq_interval'' \<mapsto> batchSize r,
      ''include_docs'' \<mapsto> include_docs r]"

text \<open>
  \<open>start(opts)\<close>: nothing when already started; otherwise the truthy overrides are
  stored and \<open>async.doWhilst\<close> runs the loop body once at once, which issues the first
  request. The result is the reader afterwards and the requests issued.
\<close>

definition start_p0 :: "changesreader_p0 \<Rightarrow> opts option \<Rightarrow> changesreader_p0 \<times> qs list" where
  "start_p0 r opts =
     (if started r then (r, [])
      else
        let r1 = r\<lparr>started := True\<rparr>;
            r2 = (if truthy (opt opts ''batchSize'')
                  then r1\<lparr>batchSize := opt opts ''batchSize''\<rparr> else r1);
            r3 = (if truthy (opt opts ''since'')
                  then r2\<lparr>since := opt opts ''since''\<rparr> else r2)
        in (r3, [req_p0 r3]))"

definition get_p0 :: "changesreader_p0 \<Rightarrow> opts option \<Rightarrow> changesreader_p0 \<times> qs list" where
  "get_p0 r opts = start_p0 (r\<lparr>stopOnEmptyChanges := True\<rparr>) opts"

text \<open>The test of the error branch: \<open>err && err.statusCode && ... < 500\<close>.\<close>

definition fatal_p0 :: "failure option \<Rightarrow> bool" where
  "fatal_p0 e =
     (case e of
        None \<Rightarrow> False
      | Some f \<Rightarrow>
          (case statusCode f of
             None \<Rightarrow> False
           | Some c \<Rightarrow> c \<noteq> 0 \<and> c \<ge> 400 \<and> c \<noteq> 429 \<and> c < 500))"

text \<open>
  The request callback: the reader afterwards, the events emitted in order, and the
  argument it passes to \<open>next\<close> (\<open>undefined\<close> for a plain \<open>next()\<close>).
\<close>

definition callback_p0 :: "changesreader_p0 \<Rightarrow> 'c reply \<Rightarrow> changesreader_p0 \<times> 'c event list \<times> jsval" where
  "callback_p0 r rp =
     (case (err rp, data rp) of
        (None, Some d) \<Rightarrow>
          let ev1 = (case results d of
                       None \<Rightarrow> []
                     | Some xs \<Rightarrow> if length xs > 0 then map EChange xs @ [EBatch xs] else []);
              upd = (truthy (last_seq d) \<and> last_seq d \<noteq> since r);
              r1 = (if upd then r\<lparr>since := last_seq d\<rparr> else r);
              ev2 = (if upd then [ESeq (since r1)] else []);
              fin = (stopOnEmptyChanges r1 \<and>
                     (case results d of
                        None \<Rightarrow> False
                      | Some xs \<Rightarrow> num_lt (int (length xs)) (batchSize r1)));
              r2 = (if fin then r1\<lparr>continue := False\<rparr> else r1);
              ev3 = (if fin then [EEnd] else [])
          in (r2, ev1 @ ev2 @ ev3, JUndefined)
      | (e, _) \<Rightarrow>
          if fatal_p0 e
          then (r\<lparr>continue := False\<rparr>, [EError e],
                (case e of None \<Rightarrow> JUndefined | Some f \<Rightarrow> reason f))
          else (r, [EError e], JUndefined))"

text \<open>
  \<open>next(e)\<close> of \<open>async.doWhilst(body, test, done)\<close>, with the synchronous test of
  async 2: a truthy \<open>e\<close> goes to \<open>done\<close>; otherwise \<open>test()\<close>, here
  \<open>self.continue\<close>, decides between another run of the body (the next request) and
  \<open>done\<close>, which is \<open>setDefaults()\<close>.
\<close>

definition next_p0 :: "changesreader_p0 \<Rightarrow> jsval \<Rightarrow> changesreader_p0 \<times> qs list" where
  "next_p0 r e =
     (if truthy e then (setDefaults_p0, [])
      else if continue r then (r, [req_p0 r])
      else (setDefaults_p0, []))"

definition on_reply_p0 :: "changesreader_p0 \<Rightarrow> 'c reply \<Rightarrow> changesreader_p0 \<times> 'c action list" where
  "on_reply_p0 r rp =
     (case callback_p0 r rp of
        (r1, evs, e) \<Rightarrow>
          (case next_p0 r1 e of (r2, qs) \<Rightarrow> (r2, map Emit evs @ map Request qs)))"

text \<open>
  What can happen to a reader: a call of its API (by the caller or by an event handler)
  or the reply to the request in flight. A request is in flight exactly while
  \<open>started\<close> holds, so a reply to a reader that is not started does not occur and is
  skipped.
\<close>

datatype 'c input = CallStart "opts option" | CallGet "opts option" | CallStop | Response "'c reply"

fun step_p0 :: "changesreader_p0 \<Rightarrow> 'c input \<Rightarrow> changesreader_p0 \<times> 'c action list" where
  "step_p0 r (CallStart opts) = (case start_p0 r opts of (r1, qs) \<Rightarrow> (r1, map Request qs))"
| "step_p0 r (CallGet opts) = (case get_p0 r opts of (r1, qs) \<Rightarrow> (r1, map Request qs))"
| "step_p0 r CallStop = (stop_p0 r, [])"
| "step_p0 r (Response rp) = (if started r then on_reply_p0 r rp else (r, []))"

fun run_p0 :: "changesreader_p0 \<Rightarrow> 'c input list \<Rightarrow> changesreader_p0 \<times> 'c action list" where
  "run_p0 r [] = (r, [])"
| "run_p0 r (i # is) =
     (case step_p0 r i of
        (r1, a1) \<Rightarrow> (case run_p0 r1 is of (r2, a2) \<Rightarrow> (r2, a1 @ a2)))"

section \<open>The reader with \<open>maxChanges\<close> (src/lib/changesreader.js)\<close>

record changesreader_lib = changesreader +
  maxChanges :: jsval
  numChanges :: int

definition setDefaults_lib :: changesreader_lib where
  "setDefaults_lib =
     \<lparr>batchSize = JNum 100, since = JStr ''now'', include_docs = JBool False,
      timeout = 60000, heartbeat = 5000, started = False,
      maxChanges = JNum 0, numChanges = 0\<rparr>"

text \<open>The page size of the next request: \<open>batchSize\<close>, or with a truthy \<open>maxChanges\<close>
  the smaller of \<open>batchSize\<close> and \<open>maxChanges - numChanges\<close>.\<close>

definition limit_lib :: "changesreader_lib \<Rightarrow> jsval" where
  "limit_lib r =
     (if truthy (maxChanges r)
      then Math_min (batchSize r) (js_sub (maxChanges r) (numChanges r))
      else batchSize r)"

definition req_lib :: "changesreader_lib \<Rightarrow> qs" where
  "req_lib r =
     [''feed'' \<mapsto> JStr ''longpoll'',
      ''timeout'' \<mapsto> JNum (timeout r),
      ''since'' \<mapsto> since r,
      ''limit'' \<mapsto> limit_lib r,
      ''heartbeat'' \<mapsto> JNum (heartbeat r),
      ''seq_interval'' \<mapsto> batchSize r,
      ''include_docs'' \<mapsto> include_docs r]"

definition start_lib :: "changesreader_lib \<Rightarrow> opts option \<Rightarrow> changesreader_lib \<times> qs list" where
  "start_lib r opts =
     (if started r then (r, [])
      else
        let r1 = r\<lparr>started := True\<rparr>;
            r2 = (if truthy (opt opts ''batchSize'')
                  then r1\<lparr>batchSize := opt opts ''batchSize''\<rparr> else r1);
            r3 = (if truthy (opt opts ''since'')
                  then r2\<lparr>since := opt opts ''since''\<rparr> else r2);
            r4 = (if truthy (opt opts ''include_docs'')
                  then r3\<lparr>include_docs := opt opts ''include_docs''\<rparr> else r3);
            r5 = (if truthy (opt opts ''maxChanges'')
                  then r4\<lparr>maxChanges := opt opts ''maxChanges''\<rparr> else r4)
        in (r5, [req_lib r5]))"

text \<open>The test of the error branch: \<open>err.statusCode && err.statusCode >= 400 &&
  err.statusCode !== 429\<close>.\<close>

definition fatal_lib :: "failure \<Rightarrow> bool" where
  "fatal_lib f =
     (case statusCode f of
        None \<Rightarrow> False
      | Some c \<Rightarrow> c \<noteq> 0 \<and> c \<ge> 400 \<and> c \<noteq> 429)"

text \<open>
  How the request callback ends: it calls \<open>next\<close> with an argument, it returns
  without calling \<open>next\<close>, or it throws (reading \<open>err.statusCode\<close> when there is
  neither an error nor data). In the last two cases the loop body is never run again.
\<close>

datatype outcome = Next jsval | NoNext | TypeError

definition callback_lib :: "changesreader_lib \<Rightarrow> 'c reply \<Rightarrow> changesreader_lib \<times> 'c event list \<times> outcome" where
  "callback_lib r rp =
     (case (err rp, data rp) of
        (None, Some d) \<Rightarrow>
          let (ev1, r1) =
                (case results d of
                   None \<Rightarrow> ([], r)
                 | Some xs \<Rightarrow>
                     if length xs > 0
                     then (map EChange xs @ [EBatch xs],
                           r\<lparr>numChanges := to_double (numChanges r + int (length xs))\<rparr>)
                     else ([], r));
              upd = (truthy (last_seq d) \<and> last_seq d \<noteq> since r1);
              r2 = (if upd then r1\<lparr>since := last_seq d\<rparr> else r1);
              ev2 = (if upd then [ESeq (since r2)] else [])
          in (r2, ev1 @ ev2, Next JUndefined)
      | (None, None) \<Rightarrow> (r, [EError None], TypeError)
      | (Some f, _) \<Rightarrow>
          if fatal_lib f then (r, [EError (Some f)], Next (reason f))
          else (r, [EError (Some f)], NoNext))"

text \<open>The test of the loop: indefinite mode, or the quota is not met yet.\<close>

definition test_lib :: "changesreader_lib \<Rightarrow> bool" where
  "test_lib r \<longleftrightarrow> maxChanges r = JNum 0 \<or> num_lt (numChanges r) (maxChanges r)"

text \<open>
  The state of the loop is the reader and whether a request is in flight: here a
  started reader can be left with none, when the callback never calls \<open>next\<close>.
\<close>

type_synonym loop_lib = "changesreader_lib \<times> bool"

definition next_lib :: "changesreader_lib \<Rightarrow> jsval \<Rightarrow> loop_lib \<times> qs list" where
  "next_lib r e =
     (if truthy e then ((setDefaults_lib, False), [])
      else if test_lib r then ((r, True), [req_lib r])
      else ((setDefaults_lib, False), []))"

definition on_reply_lib :: "changesreader_lib \<Rightarrow> 'c reply \<Rightarrow> loop_lib \<times> 'c action list" where
  "on_reply_lib r rp =
     (case callback_lib r rp of
        (r1, evs, out) \<Rightarrow>
          (case out of
             Next e \<Rightarrow>
               (case next_lib r1 e of (s, qs) \<Rightarrow> (s, map Emit evs @ map Request qs))
           | NoNext \<Rightarrow> ((r1, False), map Emit evs)
           | TypeError \<Rightarrow> ((r1, False), map Emit evs)))"

datatype 'c input_lib = Start_lib "opts option" | Reply_lib "'c reply"

fun step_lib :: "loop_lib \<Rightarrow> 'c input_lib \<Rightarrow> loop_lib \<times> 'c action list" where
  "step_lib (r, w) (Start_lib opts) =
     (case start_lib r opts of (r1, qs) \<Rightarrow> ((r1, w \<or> \<not> started r), map Request qs))"
| "step_lib (r, w) (Reply_lib rp) = (if w then on_reply_lib r rp else ((r, w), []))"

fun run_lib :: "loop_lib \<Rightarrow> 'c input_lib list \<Rightarrow> loop_lib \<times> 'c action list" where
  "run_lib s [] = (s, [])"
| "run_lib s (i # is) =
     (case step_lib s i of
        (s1, a1) \<Rightarrow> (case run_lib s1 is of (s2, a2) \<Rightarrow> (s2, a1 @ a2)))"

section \<open>Reading a trace\<close>

fun is_request :: "'c action \<Rightarrow> bool" where
  "is_request (Request q) = True"
| "is_request (Emit e) = False"

fun is_change :: "'c action \<Rightarrow> bool" where
  "is_change (Emit (EChange c)) = True"
| "is_change a = False"

fun is_seq :: "'c action \<Rightarrow> bool" where
  "is_seq (Emit (ESeq v)) = True"
| "is_seq a = False"

fun is_end :: "'c action \<Rightarrow> bool" where
  "is_end (Emit EEnd) = True"
| "is_end a = False"

fun is_batch :: "'c action \<Rightarrow> bool" where
  "is_batch (Emit (EBatch xs)) = True"
| "is_batch a = False"

fun is_error :: "'c action \<Rightarrow> bool" where
  "is_error (Emit (EError e)) = True"
| "is_error a = False"

text \<open>The \<open>since\<close> and \<open>limit\<close> query parameters an action carries, if it is a request.\<close>

fun since_of :: "'c action \<Rightarrow> jsval option" where
  "since_of (Request q) = q ''since''"
| "since_of (Emit e) = None"

fun limit_of :: "'c action \<Rightarrow> jsval option" where
  "limit_of (Request q) = q ''limit''"
| "limit_of (Emit e) = None"

text \<open>
  A server that honours \<open>limit\<close>: a successful reply carries at most as many records
  as the request asked for. \<open>honours s rps\<close> says so for each reply of \<open>rps\<close> that
  answers a request of the loop started in state \<open>s\<close>.
\<close>

definition within_limit :: "jsval \<Rightarrow> 'c reply \<Rightarrow> bool" where
  "within_limit lim rp =
     (case (err rp, data rp) of
        (None, Some d) \<Rightarrow>
          (case results d of
             None \<Rightarrow> True
           | Some xs \<Rightarrow> (case ToNumber lim of None \<Rightarrow> True | Some n \<Rightarrow> int (length xs) \<le> n))
      | _ \<Rightarrow> True)"

fun honours :: "loop_lib \<Rightarrow> 'c reply list \<Rightarrow> bool" where
  "honours s [] = True"
| "honours s (rp # rps) =
     ((if snd s then within_limit (limit_lib (fst s)) rp else True) \<and>
      honours (fst (step_lib s (Reply_lib rp))) rps)"

text \<open>
  The ceiling read off a trace, for batch size \<open>b\<close>, ceiling \<open>m\<close> and \<open>n\<close> changes
  delivered so far: each change event keeps the count within \<open>m\<close>, and each request
  is issued below the ceiling with \<open>limit\<close> the smaller of \<open>b\<close> and what remains.
\<close>

fun within_ceiling :: "int \<Rightarrow> int \<Rightarrow> int \<Rightarrow> 'c action list \<Rightarrow> bool" where
  "within_ceiling b m n [] = True"
| "within_ceiling b m n (Request q # as) =
     (n < m \<and> q ''limit'' = Some (JNum (min b (m - n))) \<and> within_ceiling b m n as)"
| "within_ceiling b m n (Emit (EChange c) # as) = (n + 1 \<le> m \<and> within_ceiling b m (n + 1) as)"
| "within_ceiling b m n (Emit e # as) = within_ceiling b m n as"

text \<open>
  The same reading of the requests alone, whatever the number of change events: each
  request is issued below the ceiling, with \<open>limit\<close> the smaller of \<open>b\<close> and what
  remains.
\<close>

fun requests_clamped :: "int \<Rightarrow> int \<Rightarrow> int \<Rightarrow> 'c action list \<Rightarrow> bool" where
  "requests_clamped b m n [] = True"
| "requests_clamped b m n (Request q # as) =
     (n < m \<and> q ''limit'' = Some (JNum (min b (m - n))) \<and> requests_clamped b m n as)"
| "requests_clamped b m n (Emit (EChange c) # as) = requests_clamped b m (n + 1) as"
| "requests_clamped b m n (Emit e # as) = requests_clamped b m n as"

section \<open>Basic facts\<close>

subsection \<open>Rounding to a double\<close>

lemma bits_bounds: "0 < n \<Longrightarrow> 2 ^ (bits n - 1) \<le> n \<and> n < 2 ^ bits n"
proof (induction n rule: bits.induct)
  case (1 n)
  show ?case
  proof (cases "n div 2 = 0")
    case True
    with 1 have "n = 1" by (auto simp: div_eq_0_iff)
    then show ?thesis by (simp add: bits.simps)
  next
    case False
    then have ih: "2 ^ (bits (n div 2) - 1) \<le> n div 2" "n div 2 < 2 ^ bits (n div 2)"
      using 1 by auto
    have pos: "0 < bits (n div 2)"
      using False by (simp add: bits.simps [of "n div 2"])
    have b: "bits n = Suc (bits (n div 2))"
      using 1 by (simp add: bits.simps [of n])
    have "2 ^ (bits n - 1) = 2 * 2 ^ (bits (n div 2) - 1)"
      using pos b by (cases "bits (n div 2)") simp_all
    also have "\<dots> \<le> 2 * (n div 2)" using ih(1) by simp
    also have "\<dots> \<le> n" by simp
    finally have lo: "2 ^ (bits n - 1) \<le> n" .
    have "n < 2 * (n div 2) + 2" by presburger
    also have "\<dots> \<le> 2 * 2 ^ bits (n div 2)" using ih(2) by simp
    finally have hi: "n < 2 ^ bits n" by (simp add: b)
    show ?thesis using lo hi by simp
  qed
qed

lemma to_double_id: "\<bar>x\<bar> \<le> 2 ^ 53 \<Longrightarrow> to_double x = x"
  by (simp add: to_double_def)

lemma round_even_ge: "x div 2 ^ e * 2 ^ e \<le> round_even x e"
  by (simp add: round_even_def Let_def)

text \<open>Rounding never takes a number from \<open>2 ^ 53\<close> or above to one below.\<close>

lemma to_double_ge:
  assumes "2 ^ 53 \<le> x"
  shows "2 ^ 53 \<le> to_double x"
proof (cases "x = 2 ^ 53")
  case True
  then show ?thesis by (simp add: to_double_def)
next
  case False
  with assms have big: "2 ^ 53 < x" by simp
  define n where "n = nat \<bar>x\<bar>"
  define e where "e = bits n - 53"
  have xn: "x = int n" using big by (simp add: n_def)
  have n53: "(2::nat) ^ 53 < n"
  proof -
    have "int (2 ^ 53) < int n" using big xn by simp
    then show ?thesis by (simp only: of_nat_less_iff)
  qed
  have pos: "0 < n" using n53 by (rule order.strict_trans [rotated]) simp
  have hi: "n < 2 ^ bits n" and lo: "2 ^ (bits n - 1) \<le> n"
    using bits_bounds [OF pos] by blast+
  have b54: "54 \<le> bits n"
  proof (rule ccontr)
    assume "\<not> 54 \<le> bits n"
    then have "bits n \<le> 53" by arith
    then have "(2::nat) ^ bits n \<le> 2 ^ 53" by (rule power_increasing) simp
    with hi have "n < (2::nat) ^ 53" by (rule less_le_trans)
    with n53 show False by (rule less_asym)
  qed
  have split: "bits n - 1 = 52 + e" and e1: "1 \<le> e"
    using b54 by (simp_all add: e_def)
  have "(2::nat) ^ (52 + e) \<le> n" using lo by (simp only: split)
  then have m: "(2::nat) ^ 52 * 2 ^ e \<le> n" by (simp only: power_add)
  have "(2::nat) ^ 52 \<le> n div 2 ^ e"
    using m by (metis less_eq_div_iff_mult_less_eq zero_less_numeral zero_less_power)
  then have q: "(2::nat) ^ 52 * 2 ^ e \<le> n div 2 ^ e * 2 ^ e"
    by (rule mult_le_mono1)
  have "(2::nat) ^ 52 * 2 ^ 1 \<le> 2 ^ 52 * 2 ^ e"
    by (rule mult_le_mono2, rule power_increasing [OF e1]) simp
  then have p: "(2::nat) ^ 53 \<le> 2 ^ 52 * 2 ^ e"
    by (simp only: power_add [symmetric]) simp
  have "(2::nat) ^ 53 \<le> round_even n e"
    using p q round_even_ge [of n e] by (meson order_trans)
  then have "int (2 ^ 53) \<le> int (round_even n e)"
    by (simp only: of_nat_le_iff)
  then have r: "(2::int) ^ 53 \<le> int (round_even n e)" by simp
  have "sgn x = 1" using big by (simp add: sgn_if)
  then have "to_double x = int (round_even n e)"
    using big by (simp add: to_double_def n_def e_def)
  with r show ?thesis by simp
qed

text \<open>The rounding at work, and some numeric strings.\<close>

lemma to_double_examples:
  "to_double 9007199254740993 = 9007199254740992 \<and>
   to_double 9007199254740995 = 9007199254740996 \<and>
   to_double (- 9007199254740995) = - 9007199254740996 \<and>
   js_sub (JNum 9007199254740994) 1 = JNum 9007199254740992"
  by (simp add: js_sub_def to_double_def round_even_def bits.simps Let_def)

lemma StringToNumber_examples:
  "StringToNumber ''0x10'' = Some 16 \<and> StringToNumber ''1e1'' = Some 10 \<and>
   StringToNumber '' 12 '' = Some 12 \<and> StringToNumber ''-7'' = Some (- 7) \<and>
   StringToNumber [] = Some 0 \<and> StringToNumber ''2.50e1'' = Some 25 \<and>
   StringToNumber ''0b101'' = Some 5 \<and> StringToNumber ''0o17'' = Some 15 \<and>
   StringToNumber ''abc'' = None \<and> StringToNumber ''-0x10'' = None \<and>
   StringToNumber ''1e'' = None \<and> StringToNumber ''12a'' = None"
  by (simp add: StringToNumber_def trim_def is_blank_def is_digit_def prefixed_def digits_in_def
        digit_of_def decimal_literal_def exponent_part_def scale_def to_double_def Let_def)

subsection \<open>Requests\<close>

lemma req_p0_since: "req_p0 r ''since'' = Some (since r)"
  by (simp add: req_p0_def)

lemma req_lib_since: "req_lib r ''since'' = Some (since r)"
  by (simp add: req_lib_def)

lemma req_lib_limit: "req_lib r ''limit'' = Some (limit_lib r)"
  by (simp add: req_lib_def)

subsection \<open>A loop with no request in flight\<close>

lemma run_p0_idle: "\<not> started r \<Longrightarrow> run_p0 r (map Response rps) = (r, [])"
  by (induction rps) auto

lemma run_lib_idle: "run_lib (r, False) (map Reply_lib rps) = ((r, False), [])"
  by (induction rps) auto

subsection \<open>The callback of part_000, case by case\<close>

lemma on_reply_p0_acts:
  "snd (on_reply_p0 r rp) =
     map Emit (fst (snd (callback_p0 r rp))) @
     map Request (snd (next_p0 (fst (callback_p0 r rp)) (snd (snd (callback_p0 r rp)))))"
  by (simp add: on_reply_p0_def split: prod.splits)

lemma next_p0_acts:
  "snd (next_p0 r e) = (if truthy e \<or> \<not> continue r then [] else [req_p0 r])"
  by (simp add: next_p0_def)

lemma on_reply_p0_state:
  "fst (on_reply_p0 r rp) =
     (if truthy (snd (snd (callback_p0 r rp))) \<or> \<not> continue (fst (callback_p0 r rp))
      then setDefaults_p0 else fst (callback_p0 r rp))"
  by (auto simp add: on_reply_p0_def next_p0_def split: prod.splits)

lemma callback_p0_ok_arg: "snd (snd (callback_p0 r (Reply None (Some d)))) = JUndefined"
  by (simp add: callback_p0_def Let_def)

lemma callback_p0_ok_events:
  "fst (snd (callback_p0 r (Reply None (Some d)))) =
     (case results d of
        None \<Rightarrow> []
      | Some xs \<Rightarrow> if xs = [] then [] else map EChange xs @ [EBatch xs]) @
     (if truthy (last_seq d) \<and> last_seq d \<noteq> since r then [ESeq (last_seq d)] else []) @
     (if stopOnEmptyChanges r \<and>
         (case results d of None \<Rightarrow> False | Some xs \<Rightarrow> num_lt (int (length xs)) (batchSize r))
      then [EEnd] else [])"
  by (simp add: callback_p0_def Let_def split: option.splits)

lemma callback_p0_ok_state:
  "fst (callback_p0 r (Reply None (Some d))) =
     r\<lparr>since := (if truthy (last_seq d) \<and> last_seq d \<noteq> since r then last_seq d else since r),
       continue := (continue r \<and>
          \<not> (stopOnEmptyChanges r \<and>
             (case results d of None \<Rightarrow> False | Some xs \<Rightarrow> num_lt (int (length xs)) (batchSize r))))\<rparr>"
  by (simp add: callback_p0_def Let_def split: option.splits)

lemma callback_p0_err:
  "e \<noteq> None \<or> dt = None \<Longrightarrow>
   callback_p0 r (Reply e dt) =
     (if fatal_p0 e
      then (r\<lparr>continue := False\<rparr>, [EError e], (case e of None \<Rightarrow> JUndefined | Some f \<Rightarrow> reason f))
      else (r, [EError e], JUndefined))"
  by (cases e; cases dt) (simp_all add: callback_p0_def)

lemma run_p0_Cons:
  "run_p0 r (i # is) =
     (fst (run_p0 (fst (step_p0 r i)) is), snd (step_p0 r i) @ snd (run_p0 (fst (step_p0 r i)) is))"
  by (simp split: prod.splits)

lemma step_p0_ok_acts:
  "started r \<Longrightarrow>
   snd (step_p0 r (Response (Reply None (Some d)))) =
     map Emit (fst (snd (callback_p0 r (Reply None (Some d))))) @
     (if continue (fst (callback_p0 r (Reply None (Some d))))
      then [Request (req_p0 (fst (callback_p0 r (Reply None (Some d)))))] else [])"
  by (simp add: on_reply_p0_acts next_p0_acts callback_p0_ok_arg)

lemma step_p0_ok_state:
  "started r \<Longrightarrow>
   fst (step_p0 r (Response (Reply None (Some d)))) =
     (if continue (fst (callback_p0 r (Reply None (Some d))))
      then fst (callback_p0 r (Reply None (Some d))) else setDefaults_p0)"
  by (simp add: on_reply_p0_state callback_p0_ok_arg)

lemma setDefaults_p0_idle: "\<not> started setDefaults_p0"
  by (simp add: setDefaults_p0_def)

lemma no_request_in_events: "\<not> list_ex is_request (map Emit evs)"
  by (induction evs) auto

lemma no_end_in_changes: "filter is_end (map (\<lambda>c. Emit (EChange c)) xs) = []"
  by (induction xs) auto

subsection \<open>The callback of lib/changesreader.js, case by case\<close>

lemma callback_lib_ok_out: "snd (snd (callback_lib r (Reply None (Some d)))) = Next JUndefined"
  by (auto simp add: callback_lib_def Let_def split: option.splits prod.splits)

lemma callback_lib_ok_events:
  "fst (snd (callback_lib r (Reply None (Some d)))) =
     (case results d of
        None \<Rightarrow> []
      | Some xs \<Rightarrow> if xs = [] then [] else map EChange xs @ [EBatch xs]) @
     (if truthy (last_seq d) \<and> last_seq d \<noteq> since r then [ESeq (last_seq d)] else [])"
  by (auto simp add: callback_lib_def Let_def split: option.splits)

lemma callback_lib_ok_state:
  "fst (callback_lib r (Reply None (Some d))) =
     r\<lparr>since := (if truthy (last_seq d) \<and> last_seq d \<noteq> since r then last_seq d else since r),
       numChanges :=
         (case results d of
            None \<Rightarrow> numChanges r
          | Some xs \<Rightarrow> if xs = [] then numChanges r
                       else to_double (numChanges r + int (length xs)))\<rparr>"
  by (auto simp add: callback_lib_def Let_def split: option.splits)

lemma on_reply_lib_ok_acts:
  "snd (on_reply_lib r (Reply None (Some d))) =
     map Emit (fst (snd (callback_lib r (Reply None (Some d))))) @
     (if test_lib (fst (callback_lib r (Reply None (Some d))))
      then [Request (req_lib (fst (callback_lib r (Reply None (Some d)))))] else [])"
  using callback_lib_ok_out [of r d]
  by (cases "callback_lib r (Reply None (Some d))")
     (simp add: on_reply_lib_def next_lib_def)

lemma on_reply_lib_ok_state:
  "fst (on_reply_lib r (Reply None (Some d))) =
     (if test_lib (fst (callback_lib r (Reply None (Some d))))
      then (fst (callback_lib r (Reply None (Some d))), True) else (setDefaults_lib, False))"
  using callback_lib_ok_out [of r d]
  by (cases "callback_lib r (Reply None (Some d))")
     (simp add: on_reply_lib_def next_lib_def)

lemma on_reply_lib_null:
  "on_reply_lib r (Reply None None) = ((r, False), [Emit (EError None)])"
  by (simp add: on_reply_lib_def callback_lib_def)

lemma on_reply_lib_err:
  "on_reply_lib r (Reply (Some f) dt) =
     (if fatal_lib f
      then (if \<not> truthy (reason f) \<and> test_lib r
            then ((r, True), [Emit (EError (Some f)), Request (req_lib r)])
            else ((setDefaults_lib, False), [Emit (EError (Some f))]))
      else ((r, False), [Emit (EError (Some f))]))"
  by (simp add: on_reply_lib_def callback_lib_def next_lib_def)

lemma run_lib_Cons:
  "run_lib s (i # is) =
     (fst (run_lib (fst (step_lib s i)) is), snd (step_lib s i) @ snd (run_lib (fst (step_lib s i)) is))"
  by (simp split: prod.splits)

subsection \<open>Error replies in part_000\<close>

lemma fatal_p0_iff:
  "fatal_p0 e \<longleftrightarrow> (\<exists>f c. e = Some f \<and> statusCode f = Some c \<and> 400 \<le> c \<and> c < 500 \<and> c \<noteq> 429)"
  by (auto simp add: fatal_p0_def split: option.splits)

lemma p0_transient_retries:
  assumes "started r" and "continue r" and "e \<noteq> None \<or> dt = None" and "\<not> fatal_p0 e"
  shows "step_p0 r (Response (Reply e dt)) = (r, [Emit (EError e), Request (req_p0 r)])"
  using assms by (simp add: on_reply_p0_def callback_p0_err next_p0_def)

lemma p0_fatal_halts:
  assumes "started r" and "e \<noteq> None \<or> dt = None" and "fatal_p0 e"
  shows "step_p0 r (Response (Reply e dt)) = (setDefaults_p0, [Emit (EError e)])"
  using assms by (simp add: on_reply_p0_def callback_p0_err next_p0_def)

text \<open>
  An unbounded loop that was not stopped polls on: every successful reply is followed by
  one more request.
\<close>

lemma p0_polls_on:
  assumes "started r" and "continue r" and "\<not> stopOnEmptyChanges r"
  shows "length (filter is_request
           (snd (run_p0 r (map (\<lambda>d. Response (Reply None (Some d))) ds)))) = length ds"
  using assms
proof (induction ds arbitrary: r)
  case Nil
  then show ?case by simp
next
  case (Cons d ds)
  let ?rp = "Reply None (Some d)"
  let ?r' = "fst (callback_p0 r ?rp)"
  have r': "started ?r'" "continue ?r'" "\<not> stopOnEmptyChanges ?r'"
    using Cons.prems by (simp_all add: callback_p0_ok_state)
  have s: "fst (step_p0 r (Response ?rp)) = ?r'"
    using Cons.prems(1) r'(2) by (simp add: step_p0_ok_state del: step_p0.simps)
  have a: "snd (step_p0 r (Response ?rp)) =
      map Emit (fst (snd (callback_p0 r ?rp))) @ [Request (req_p0 ?r')]"
    using Cons.prems(1) r'(2) by (simp add: step_p0_ok_acts del: step_p0.simps)
  have noreq: "filter is_request (map Emit (fst (snd (callback_p0 r ?rp)))) = ([] :: 'a action list)"
    by (simp add: filter_empty_conv)
  show ?case
    using Cons.IH [OF r'] noreq
    by (simp add: run_p0_Cons s a del: step_p0.simps run_p0.simps)
qed

lemma step_lib_ok_acts:
  "snd (step_lib (l, True) (Reply_lib (Reply None (Some d)))) =
     map Emit (fst (snd (callback_lib l (Reply None (Some d))))) @
     (if test_lib (fst (callback_lib l (Reply None (Some d))))
      then [Request (req_lib (fst (callback_lib l (Reply None (Some d)))))] else [])"
  by (simp add: on_reply_lib_ok_acts)

subsection \<open>The ceiling of lib/changesreader.js along a run\<close>

lemma within_ceiling_changes:
  "n + int (length xs) \<le> m \<Longrightarrow>
   within_ceiling b m n (map (\<lambda>c. Emit (EChange c)) xs @ as) =
   within_ceiling b m (n + int (length xs)) as"
  by (induction xs arbitrary: n) (simp_all add: add.assoc)

lemma within_ceiling_count:
  "within_ceiling b m n as \<Longrightarrow> n \<le> m \<Longrightarrow> n + int (length (filter is_change as)) \<le> m"
proof (induction b m n as rule: within_ceiling.induct)
  case (1 b m n)
  then show ?case by simp
next
  case (2 b m n q as)
  then show ?case by simp
next
  case (3 b m n c as)
  then show ?case by simp
qed simp_all

lemma limit_lib_num:
  "batchSize r = JNum b \<Longrightarrow> maxChanges r = JNum m \<Longrightarrow> m \<le> 2 ^ 53 \<Longrightarrow>
   0 \<le> numChanges r \<Longrightarrow> numChanges r < m \<Longrightarrow>
   limit_lib r = JNum (min b (m - numChanges r))"
  by (simp add: limit_lib_def Math_min_def js_sub_def to_double_id)

lemma test_lib_num:
  "maxChanges r = JNum m \<Longrightarrow> m \<noteq> 0 \<Longrightarrow> test_lib r \<longleftrightarrow> numChanges r < m"
  by (simp add: test_lib_def num_lt_def)

lemma lib_within_ceiling:
  assumes "batchSize r = JNum b" and "maxChanges r = JNum m" and "0 < m" and "m \<le> 2 ^ 53"
    and "0 \<le> numChanges r" and "numChanges r < m" and "honours (r, True) rps"
  shows "within_ceiling b m (numChanges r) (snd (run_lib (r, True) (map Reply_lib rps)))"
  using assms
proof (induction rps arbitrary: r)
  case Nil
  then show ?case by simp
next
  case (Cons rp rps)
  obtain e dt where rp: "rp = Reply e dt" by (cases rp)
  have lim: "limit_lib r = JNum (min b (m - numChanges r))"
    using Cons.prems by (simp add: limit_lib_num)
  have reqok: "req_lib r ''limit'' = Some (JNum (min b (m - numChanges r)))"
    by (simp add: req_lib_limit lim)
  have hon: "honours (fst (step_lib (r, True) (Reply_lib rp))) rps"
    and wl: "within_limit (limit_lib r) rp"
    using Cons.prems(7) by simp_all
  show ?case
  proof (cases e)
    case (Some f)
    have st: "step_lib (r, True) (Reply_lib rp) =
        (if fatal_lib f
         then (if \<not> truthy (reason f) \<and> test_lib r
               then ((r, True), [Emit (EError (Some f)), Request (req_lib r)])
               else ((setDefaults_lib, False), [Emit (EError (Some f))]))
         else ((r, False), [Emit (EError (Some f))]))"
      by (simp add: rp Some on_reply_lib_err)
    show ?thesis
    proof (cases "fatal_lib f \<and> \<not> truthy (reason f) \<and> test_lib r")
      case True
      then have s: "step_lib (r, True) (Reply_lib rp) =
          ((r, True), [Emit (EError (Some f)), Request (req_lib r)])"
        using st by simp
      have "within_ceiling b m (numChanges r) (snd (run_lib (r, True) (map Reply_lib rps)))"
        using Cons.IH [of r] Cons.prems hon s by simp
      then show ?thesis
        using Cons.prems(6) reqok by (simp add: run_lib_Cons s del: run_lib.simps step_lib.simps)
    next
      case False
      then obtain r' where s: "step_lib (r, True) (Reply_lib rp) = ((r', False), [Emit (EError (Some f))])"
        using st by (auto split: if_splits)
      show ?thesis
        by (simp add: run_lib_Cons s run_lib_idle del: run_lib.simps step_lib.simps)
    qed
  next
    case None
    show ?thesis
    proof (cases dt)
      case None
      have s: "step_lib (r, True) (Reply_lib rp) = ((r, False), [Emit (EError None)])"
        by (simp add: rp \<open>e = None\<close> None on_reply_lib_null)
      show ?thesis
        by (simp add: run_lib_Cons s run_lib_idle del: run_lib.simps step_lib.simps)
    next
      case (Some d)
      let ?rp = "Reply None (Some d)"
      let ?k = "(case results d of None \<Rightarrow> 0 | Some xs \<Rightarrow> int (length xs))"
      let ?r' = "fst (callback_lib r ?rp)"
      have rp': "rp = ?rp" by (simp add: rp \<open>e = None\<close> Some)
      have k0: "0 \<le> ?k" by (simp split: option.splits)
      have k: "numChanges r + ?k \<le> m"
        using wl Cons.prems(6) by (auto simp add: rp' lim within_limit_def split: option.splits)
      have exact: "to_double (numChanges r + ?k) = numChanges r + ?k"
        using k k0 Cons.prems(4,5) by (intro to_double_id) simp
      have r': "batchSize ?r' = JNum b" "maxChanges ?r' = JNum m"
        using Cons.prems by (simp_all add: callback_lib_ok_state)
      have n': "numChanges ?r' = numChanges r + ?k"
        using exact by (auto simp add: callback_lib_ok_state split: option.splits)
      have ev: "within_ceiling b m (numChanges r) (map Emit (fst (snd (callback_lib r ?rp))) @ as) =
          within_ceiling b m (numChanges ?r') as" for as :: "'a action list"
      proof (cases "results d")
        case None
        then show ?thesis by (simp add: callback_lib_ok_events n')
      next
        case (Some xs)
        then show ?thesis
          using k within_ceiling_changes [of "numChanges r" xs m b]
          by (simp add: callback_lib_ok_events n' comp_def)
      qed
      have sa: "snd (step_lib (r, True) (Reply_lib rp)) =
          map Emit (fst (snd (callback_lib r ?rp))) @
          (if test_lib ?r' then [Request (req_lib ?r')] else [])"
        by (simp add: rp' on_reply_lib_ok_acts)
      have ss: "fst (step_lib (r, True) (Reply_lib rp)) =
          (if test_lib ?r' then (?r', True) else (setDefaults_lib, False))"
        by (simp add: rp' on_reply_lib_ok_state)
      show ?thesis
      proof (cases "test_lib ?r'")
        case True
        then have lt: "numChanges ?r' < m"
          using r'(2) Cons.prems(3) by (simp add: test_lib_num)
        have nn: "0 \<le> numChanges ?r'"
          using n' k0 Cons.prems(5) by simp
        have "honours (?r', True) rps"
          using hon ss True by simp
        then have ih: "within_ceiling b m (numChanges ?r') (snd (run_lib (?r', True) (map Reply_lib rps)))"
          using Cons.IH [of ?r'] r' lt nn Cons.prems(3,4) by simp
        have rq: "req_lib ?r' ''limit'' = Some (JNum (min b (m - numChanges ?r')))"
          using r' lt nn Cons.prems(4) by (simp add: req_lib_limit limit_lib_num)
        show ?thesis
          using ih lt rq True
          by (simp add: run_lib_Cons sa ss ev del: run_lib.simps step_lib.simps)
      next
        case False
        then show ?thesis
          using ev [of "[]"]
          by (simp add: run_lib_Cons sa ss run_lib_idle del: run_lib.simps step_lib.simps)
      qed
    qed
  qed
qed

lemma requests_clamped_changes:
  "requests_clamped b m n (map (\<lambda>c. Emit (EChange c)) xs @ as) =
   requests_clamped b m (n + int (length xs)) as"
  by (induction xs arbitrary: n) (simp_all add: add.assoc)

lemma lib_requests_clamped:
  assumes "batchSize r = JNum b" and "maxChanges r = JNum m" and "0 < m" and "m \<le> 2 ^ 53"
    and "0 \<le> numChanges r" and "numChanges r < m"
  shows "requests_clamped b m (numChanges r) (snd (run_lib (r, True) (map Reply_lib rps)))"
  using assms
proof (induction rps arbitrary: r)
  case Nil
  then show ?case by simp
next
  case (Cons rp rps)
  obtain e dt where rp: "rp = Reply e dt" by (cases rp)
  have reqok: "req_lib r ''limit'' = Some (JNum (min b (m - numChanges r)))"
    using Cons.prems by (simp add: req_lib_limit limit_lib_num)
  show ?case
  proof (cases e)
    case (Some f)
    have st: "step_lib (r, True) (Reply_lib rp) =
        (if fatal_lib f
         then (if \<not> truthy (reason f) \<and> test_lib r
               then ((r, True), [Emit (EError (Some f)), Request (req_lib r)])
               else ((setDefaults_lib, False), [Emit (EError (Some f))]))
         else ((r, False), [Emit (EError (Some f))]))"
      by (simp add: rp Some on_reply_lib_err)
    show ?thesis
    proof (cases "fatal_lib f \<and> \<not> truthy (reason f) \<and> test_lib r")
      case True
      then have s: "step_lib (r, True) (Reply_lib rp) =
          ((r, True), [Emit (EError (Some f)), Request (req_lib r)])"
        using st by simp
      have "requests_clamped b m (numChanges r) (snd (run_lib (r, True) (map Reply_lib rps)))"
        using Cons.IH [of r] Cons.prems by simp
      then show ?thesis
        using Cons.prems(6) reqok by (simp add: run_lib_Cons s del: run_lib.simps step_lib.simps)
    next
      case False
      then obtain r' where s: "step_lib (r, True) (Reply_lib rp) = ((r', False), [Emit (EError (Some f))])"
        using st by (auto split: if_splits)
      show ?thesis
        by (simp add: run_lib_Cons s run_lib_idle del: run_lib.simps step_lib.simps)
    qed
  next
    case None
    show ?thesis
    proof (cases dt)
      case None
      have s: "step_lib (r, True) (Reply_lib rp) = ((r, False), [Emit (EError None)])"
        by (simp add: rp \<open>e = None\<close> None on_reply_lib_null)
      show ?thesis
        by (simp add: run_lib_Cons s run_lib_idle del: run_lib.simps step_lib.simps)
    next
      case (Some d)
      let ?rp = "Reply None (Some d)"
      let ?k = "(case results d of None \<Rightarrow> 0 | Some xs \<Rightarrow> int (length xs))"
      let ?r' = "fst (callback_lib r ?rp)"
      have rp': "rp = ?rp" by (simp add: rp \<open>e = None\<close> Some)
      have k0: "0 \<le> ?k" by (simp split: option.splits)
      have n0: "to_double (numChanges r) = numChanges r"
        using Cons.prems(4,5,6) by (intro to_double_id) simp
      have r': "batchSize ?r' = JNum b" "maxChanges ?r' = JNum m"
        using Cons.prems by (simp_all add: callback_lib_ok_state)
      have n': "numChanges ?r' = to_double (numChanges r + ?k)"
        using n0 by (auto simp add: callback_lib_ok_state split: option.splits)
      have ev: "requests_clamped b m (numChanges r) (map Emit (fst (snd (callback_lib r ?rp))) @ as) =
          requests_clamped b m (numChanges r + ?k) as" for as :: "'a action list"
      proof (cases "results d")
        case None
        then show ?thesis by (simp add: callback_lib_ok_events)
      next
        case (Some xs)
        then show ?thesis
          using requests_clamped_changes [of b m "numChanges r" xs]
          by (simp add: callback_lib_ok_events comp_def)
      qed
      have sa: "snd (step_lib (r, True) (Reply_lib rp)) =
          map Emit (fst (snd (callback_lib r ?rp))) @
          (if test_lib ?r' then [Request (req_lib ?r')] else [])"
        by (simp add: rp' on_reply_lib_ok_acts)
      have ss: "fst (step_lib (r, True) (Reply_lib rp)) =
          (if test_lib ?r' then (?r', True) else (setDefaults_lib, False))"
        by (simp add: rp' on_reply_lib_ok_state)
      show ?thesis
      proof (cases "test_lib ?r'")
        case True
        then have lt: "numChanges ?r' < m"
          using r'(2) Cons.prems(3) by (simp add: test_lib_num)
        have small: "numChanges r + ?k < 2 ^ 53"
        proof (rule ccontr)
          assume "\<not> numChanges r + ?k < 2 ^ 53"
          then have "2 ^ 53 \<le> to_double (numChanges r + ?k)"
            by (intro to_double_ge) simp
          then show False using lt n' Cons.prems(4) by simp
        qed
        have exact: "numChanges ?r' = numChanges r + ?k"
          using small k0 Cons.prems(5) n' by (simp add: to_double_id)
        have nn: "0 \<le> numChanges ?r'"
          using exact k0 Cons.prems(5) by simp
        have ih: "requests_clamped b m (numChanges ?r') (snd (run_lib (?r', True) (map Reply_lib rps)))"
          using Cons.IH [of ?r'] r' lt nn Cons.prems(3,4) by simp
        have rq: "req_lib ?r' ''limit'' = Some (JNum (min b (m - numChanges ?r')))"
          using r' lt nn Cons.prems(4) by (simp add: req_lib_limit limit_lib_num)
        show ?thesis
          using ih lt rq True exact
          by (simp add: run_lib_Cons sa ss ev del: run_lib.simps step_lib.simps)
      next
        case False
        then show ?thesis
          using ev [of "[]"]
          by (simp add: run_lib_Cons sa ss run_lib_idle del: run_lib.simps step_lib.simps)
      qed
    qed
  qed
qed

lemma honours_count:
  assumes "batchSize r = JNum b" and "maxChanges r = JNum m" and "0 < m" and "m \<le> 2 ^ 53"
    and "0 \<le> numChanges r" and "numChanges r < m" and "honours (r, True) rps"
  shows "numChanges r + int (length (filter is_change (snd (run_lib (r, True) (map Reply_lib rps))))) \<le> m"
  using within_ceiling_count [OF lib_within_ceiling [OF assms]] assms(6) by simp

section \<open>The claims\<close>

text \<open>
  Claim C1 (a transient failure is followed by a request with the same \<open>since\<close>).
  In src/lib/changesreader.js a reply with status 429 makes the callback emit the \<open>error\<close>
  event and return without calling \<open>next\<close>: the reader stays started, no request is in
  flight and none is issued again. In src/unnamed/part_000 the request follows, see
  \<open>p0_transient_retries\<close>.
\<close>

theorem lib_stalls_on_429:
  "run_lib (setDefaults_lib, False)
     [Start_lib None,
      Reply_lib (Reply (Some \<lparr>statusCode = Some 429, reason = JStr ''too_many_requests''\<rparr>) (None :: nat body option))] =
   ((setDefaults_lib\<lparr>started := True\<rparr>, False),
    [Request (req_lib (setDefaults_lib\<lparr>started := True\<rparr>)),
     Emit (EError (Some \<lparr>statusCode = Some 429, reason = JStr ''too_many_requests''\<rparr>))])"
  by (simp add: start_lib_def setDefaults_lib_def Let_def opt_def on_reply_lib_err fatal_lib_def)

text \<open>
  Claim C2 (the loop halts exactly on a status in [400,500) other than 429).
  In src/lib/changesreader.js a reply with status 500 and a reason ends the loop (the reader
  is reset and no request follows), and a reply with status 404 and no reason is followed
  by the next request. In src/unnamed/part_000 the loop halts exactly on the fatal statuses,
  see \<open>p0_fatal_halts\<close>, \<open>p0_transient_retries\<close> and \<open>fatal_p0_iff\<close>.
\<close>

theorem lib_halts_on_500_continues_on_404:
  "run_lib (setDefaults_lib, False)
     [Start_lib None,
      Reply_lib (Reply (Some \<lparr>statusCode = Some 500, reason = JStr ''internal_server_error''\<rparr>) (None :: nat body option))] =
   ((setDefaults_lib, False),
    [Request (req_lib (setDefaults_lib\<lparr>started := True\<rparr>)),
     Emit (EError (Some \<lparr>statusCode = Some 500, reason = JStr ''internal_server_error''\<rparr>))]) \<and>
   run_lib (setDefaults_lib, False)
     [Start_lib None,
      Reply_lib (Reply (Some \<lparr>statusCode = Some 404, reason = JUndefined\<rparr>) (None :: nat body option))] =
   ((setDefaults_lib\<lparr>started := True\<rparr>, True),
    [Request (req_lib (setDefaults_lib\<lparr>started := True\<rparr>)),
     Emit (EError (Some \<lparr>statusCode = Some 404, reason = JUndefined\<rparr>)),
     Request (req_lib (setDefaults_lib\<lparr>started := True\<rparr>))])"
  by (simp add: start_lib_def setDefaults_lib_def Let_def opt_def on_reply_lib_err fatal_lib_def
        test_lib_def)

text \<open>
  Claim C3 says that \<open>stop()\<close> before \<open>start()\<close> changes nothing. It does: with two
  successful replies on offer, the reader that was stopped first issues one request, the
  other one three.
\<close>

theorem stop_before_start_counterexample:
  "length (filter is_request (snd (run_p0 setDefaults_p0
      [CallStop, CallStart None,
       Response (Reply None (Some \<lparr>results = Some ([] :: nat list), last_seq = JStr ''1-0''\<rparr>)),
       Response (Reply None (Some \<lparr>results = Some ([] :: nat list), last_seq = JStr ''1-0''\<rparr>))]))) = 1 \<and>
   length (filter is_request (snd (run_p0 setDefaults_p0
      [CallStart None,
       Response (Reply None (Some \<lparr>results = Some ([] :: nat list), last_seq = JStr ''1-0''\<rparr>)),
       Response (Reply None (Some \<lparr>results = Some ([] :: nat list), last_seq = JStr ''1-0''\<rparr>))]))) = 3"
  by (simp add: start_p0_def stop_p0_def setDefaults_p0_def Let_def opt_def
        on_reply_p0_def callback_p0_def next_p0_def)

text \<open>
  Claim C3, amended. \<open>stop()\<close> on a fresh reader clears the \<open>continue\<close> flag, which
  \<open>start()\<close> does not set again. The loop then issues exactly one request. The reply to
  it has its events emitted as usual (the \<open>change\<close>, \<open>batch\<close> and \<open>seq\<close> events of a
  successful reply, the \<open>error\<close> event of a failed one, a handler of \<open>error\<close> being
  registered); then the loop halts and the reader is reset to its defaults, so that
  whatever happens next happens to a fresh reader: replies find no request in flight
  and nothing is issued until \<open>start()\<close> is called again. That later \<open>start()\<close> polls on,
  with one more request after every successful reply.
\<close>

theorem stop_before_start_one_request:
  "run_p0 setDefaults_p0 (CallStop # CallStart opts # Response rp # rest) =
     (fst (run_p0 setDefaults_p0 rest),
      Request (req_p0 (fst (start_p0 (stop_p0 setDefaults_p0) opts))) #
      map Emit
        (case rp of
           Reply None (Some d) \<Rightarrow>
             (case results d of
                None \<Rightarrow> []
              | Some xs \<Rightarrow> if xs = [] then [] else map EChange xs @ [EBatch xs]) @
             (if truthy (last_seq d) \<and>
                 last_seq d \<noteq> since (fst (start_p0 (stop_p0 setDefaults_p0) opts))
              then [ESeq (last_seq d)] else [])
         | Reply e dt \<Rightarrow> [EError e]) @
      snd (run_p0 setDefaults_p0 rest)) \<and>
   run_p0 setDefaults_p0 (map Response rps) = (setDefaults_p0, []) \<and>
   length (filter is_request
     (snd (run_p0 setDefaults_p0
        (CallStop # CallStart opts # Response rp # CallStart opts' #
         map (\<lambda>d. Response (Reply None (Some d))) ds)))) = length ds + 2"
proof -
  let ?r1 = "fst (start_p0 (stop_p0 setDefaults_p0) opts)"
  let ?evs = "(case rp of
           Reply None (Some d) \<Rightarrow>
             (case results d of
                None \<Rightarrow> []
              | Some xs \<Rightarrow> if xs = [] then [] else map EChange xs @ [EBatch xs]) @
             (if truthy (last_seq d) \<and> last_seq d \<noteq> since ?r1
              then [ESeq (last_seq d)] else [])
         | Reply e dt \<Rightarrow> [EError e])"
  have r1: "started ?r1" "\<not> continue ?r1" "\<not> stopOnEmptyChanges ?r1"
    by (simp_all add: start_p0_def stop_p0_def setDefaults_p0_def Let_def)
  have a1: "snd (start_p0 (stop_p0 setDefaults_p0) opts) = [req_p0 ?r1]"
    by (simp add: start_p0_def stop_p0_def setDefaults_p0_def Let_def)
  have ev: "fst (snd (callback_p0 ?r1 rp)) = ?evs"
  proof (cases rp)
    case (Reply e dt)
    show ?thesis
    proof (cases "e = None \<and> dt \<noteq> None")
      case True
      then obtain d where "rp = Reply None (Some d)"
        using Reply by auto
      then show ?thesis
        using r1(3) by (simp add: callback_p0_ok_events)
    next
      case False
      then have "e \<noteq> None \<or> dt = None" by simp
      then show ?thesis
        using Reply by (cases e; cases dt) (simp_all add: callback_p0_err)
    qed
  qed
  have nc: "\<not> continue (fst (callback_p0 ?r1 rp))"
    using r1(2) by (cases rp) (auto simp add: callback_p0_def Let_def split: option.splits)
  have s2: "fst (step_p0 ?r1 (Response rp)) = setDefaults_p0"
    using r1(1) nc by (simp add: on_reply_p0_state)
  have a2: "snd (step_p0 ?r1 (Response rp)) = map Emit ?evs"
    using r1(1) nc by (simp add: on_reply_p0_acts next_p0_acts ev)
  have run: "run_p0 setDefaults_p0 (CallStop # CallStart opts # Response rp # rest) =
      (fst (run_p0 setDefaults_p0 rest),
       Request (req_p0 ?r1) # map Emit ?evs @ snd (run_p0 setDefaults_p0 rest))"
    for rest :: "'a input list"
    using s2 a2 a1
    by (cases "start_p0 (stop_p0 setDefaults_p0) opts")
       (simp add: run_p0_Cons del: run_p0.simps step_p0.simps(4))
  have idle: "run_p0 setDefaults_p0 (map Response rps) = (setDefaults_p0, [])"
    by (rule run_p0_idle [OF setDefaults_p0_idle])
  let ?r2 = "fst (start_p0 setDefaults_p0 opts')"
  have r2: "started ?r2" "continue ?r2" "\<not> stopOnEmptyChanges ?r2"
    by (simp_all add: start_p0_def setDefaults_p0_def Let_def)
  have a3: "snd (start_p0 setDefaults_p0 opts') = [req_p0 ?r2]"
    by (simp add: start_p0_def setDefaults_p0_def Let_def)
  have later: "length (filter is_request (snd (run_p0 setDefaults_p0
      (CallStart opts' # map (\<lambda>d. Response (Reply None (Some d))) ds)))) = length ds + 1"
    using p0_polls_on [OF r2, of ds] a3
    by (cases "start_p0 setDefaults_p0 opts'")
       (simp add: run_p0_Cons del: run_p0.simps step_p0.simps(4))
  have noreq: "filter is_request (map Emit ?evs) = ([] :: 'a action list)"
    by (simp add: filter_empty_conv)
  have count: "length (filter is_request
     (snd (run_p0 setDefaults_p0
        (CallStop # CallStart opts # Response rp # CallStart opts' #
         map (\<lambda>d. Response (Reply None (Some d))) ds)))) = length ds + 2"
    using later noreq by (simp add: run del: run_p0.simps)
  show ?thesis
    using run [of rest] idle count by (simp only: simp_thms)
qed




text \<open>
  Claim C5. After a successful reply with a non-empty result list \<open>xs\<close>, both readers
  emit one \<open>change\<close> event per record of \<open>xs\<close> in order, then one \<open>batch\<close> event
  carrying \<open>xs\<close>, then the \<open>seq\<close> event if the position changed (part_000 then emits
  \<open>end\<close> in \<open>get\<close> mode on a short list); only requests follow.
\<close>

theorem nonempty_batch_event_order:
  assumes "results d = Some xs" and "xs \<noteq> []"
  shows "(started r \<longrightarrow>
          (\<exists>qs. snd (step_p0 r (Response (Reply None (Some d)))) =
            map (\<lambda>c. Emit (EChange c)) xs @ [Emit (EBatch xs)] @
            (if truthy (last_seq d) \<and> last_seq d \<noteq> since r then [Emit (ESeq (last_seq d))] else []) @
            (if stopOnEmptyChanges r \<and> num_lt (int (length xs)) (batchSize r) then [Emit EEnd] else []) @
            map Request qs)) \<and>
         (\<exists>qs. snd (step_lib (l, True) (Reply_lib (Reply None (Some d)))) =
            map (\<lambda>c. Emit (EChange c)) xs @ [Emit (EBatch xs)] @
            (if truthy (last_seq d) \<and> last_seq d \<noteq> since l then [Emit (ESeq (last_seq d))] else []) @
            map Request qs)"
proof (intro conjI impI)
  let ?rp = "Reply None (Some d)"
  assume st: "started r"
  have "snd (step_p0 r (Response ?rp)) =
      map Emit (fst (snd (callback_p0 r ?rp))) @
      map Request (if continue (fst (callback_p0 r ?rp)) then [req_p0 (fst (callback_p0 r ?rp))] else [])"
    using st by (simp add: step_p0_ok_acts del: step_p0.simps)
  moreover have "map Emit (fst (snd (callback_p0 r ?rp))) =
      map (\<lambda>c. Emit (EChange c)) xs @ [Emit (EBatch xs)] @
      (if truthy (last_seq d) \<and> last_seq d \<noteq> since r then [Emit (ESeq (last_seq d))] else []) @
      (if stopOnEmptyChanges r \<and> num_lt (int (length xs)) (batchSize r) then [Emit EEnd] else [])"
    using assms by (simp add: callback_p0_ok_events comp_def)
  ultimately show "\<exists>qs. snd (step_p0 r (Response ?rp)) =
      map (\<lambda>c. Emit (EChange c)) xs @ [Emit (EBatch xs)] @
      (if truthy (last_seq d) \<and> last_seq d \<noteq> since r then [Emit (ESeq (last_seq d))] else []) @
      (if stopOnEmptyChanges r \<and> num_lt (int (length xs)) (batchSize r) then [Emit EEnd] else []) @
      map Request qs"
    by (metis append_assoc)
next
  let ?rp = "Reply None (Some d)"
  have "snd (step_lib (l, True) (Reply_lib ?rp)) =
      map Emit (fst (snd (callback_lib l ?rp))) @
      map Request (if test_lib (fst (callback_lib l ?rp)) then [req_lib (fst (callback_lib l ?rp))] else [])"
    by (simp add: step_lib_ok_acts del: step_lib.simps)
  moreover have "map Emit (fst (snd (callback_lib l ?rp))) =
      map (\<lambda>c. Emit (EChange c)) xs @ [Emit (EBatch xs)] @
      (if truthy (last_seq d) \<and> last_seq d \<noteq> since l then [Emit (ESeq (last_seq d))] else [])"
    using assms by (simp add: callback_lib_ok_events comp_def)
  ultimately show "\<exists>qs. snd (step_lib (l, True) (Reply_lib ?rp)) =
      map (\<lambda>c. Emit (EChange c)) xs @ [Emit (EBatch xs)] @
      (if truthy (last_seq d) \<and> last_seq d \<noteq> since l then [Emit (ESeq (last_seq d))] else []) @
      map Request qs"
    by (metis append_assoc)
qed

theorem nonempty_batch_event_order_witness:
  "results \<lparr>results = Some [''1'', ''2''], last_seq = JStr ''2-0''\<rparr> = Some [''1'', ''2''] \<and>
   [''1'', ''2''] \<noteq> [] \<and>
   started (setDefaults_p0\<lparr>started := True\<rparr>) \<and>
   (\<exists>qs. snd (step_p0 (setDefaults_p0\<lparr>started := True\<rparr>)
             (Response (Reply None (Some \<lparr>results = Some [''1'', ''2''], last_seq = JStr ''2-0''\<rparr>)))) =
          [Emit (EChange ''1''), Emit (EChange ''2''), Emit (EBatch [''1'', ''2'']),
           Emit (ESeq (JStr ''2-0''))] @ map Request qs) \<and>
   (\<exists>qs. snd (step_lib (setDefaults_lib\<lparr>started := True\<rparr>, True)
             (Reply_lib (Reply None (Some \<lparr>results = Some [''1'', ''2''], last_seq = JStr ''2-0''\<rparr>)))) =
          [Emit (EChange ''1''), Emit (EChange ''2''), Emit (EBatch [''1'', ''2'']),
           Emit (ESeq (JStr ''2-0''))] @ map Request qs)"
proof -
  have h: "results \<lparr>results = Some [''1'', ''2''], last_seq = JStr ''2-0''\<rparr> = Some [''1'', ''2'']"
    "[''1'', ''2''] \<noteq> []"
    by simp_all
  have s: "started (setDefaults_p0\<lparr>started := True\<rparr>)"
    "since (setDefaults_p0\<lparr>started := True\<rparr>) = JStr ''now''"
    "stopOnEmptyChanges (setDefaults_p0\<lparr>started := True\<rparr>) = False"
    "since (setDefaults_lib\<lparr>started := True\<rparr>) = JStr ''now''"
    by (simp_all add: setDefaults_p0_def setDefaults_lib_def)
  show ?thesis
    using nonempty_batch_event_order [OF h, of "setDefaults_p0\<lparr>started := True\<rparr>" "setDefaults_lib\<lparr>started := True\<rparr>"]
    by (simp add: s del: step_p0.simps step_lib.simps)
qed

text \<open>
  Claim C6 says that a \<open>last_seq\<close> that differs from the position always gives one
  \<open>seq\<close> event and the next \<open>since\<close>. A reply with \<open>last_seq\<close> the number 0 differs
  from the position \<open>now\<close>, yet no \<open>seq\<close> event is emitted and the next request still
  asks for \<open>since=now\<close>.
\<close>

theorem falsy_last_seq_counterexample:
  "JNum 0 \<noteq> since (setDefaults_p0\<lparr>started := True\<rparr>) \<and>
   filter is_seq (snd (step_p0 (setDefaults_p0\<lparr>started := True\<rparr>)
      (Response (Reply None (Some \<lparr>results = Some ([] :: nat list), last_seq = JNum 0\<rparr>))))) = [] \<and>
   map since_of (filter is_request (snd (step_p0 (setDefaults_p0\<lparr>started := True\<rparr>)
      (Response (Reply None (Some \<lparr>results = Some ([] :: nat list), last_seq = JNum 0\<rparr>)))))) =
     [Some (JStr ''now'')] \<and>
   JNum 0 \<noteq> since (setDefaults_lib\<lparr>started := True\<rparr>) \<and>
   filter is_seq (snd (step_lib (setDefaults_lib\<lparr>started := True\<rparr>, True)
      (Reply_lib (Reply None (Some \<lparr>results = Some ([] :: nat list), last_seq = JNum 0\<rparr>))))) = [] \<and>
   map since_of (filter is_request (snd (step_lib (setDefaults_lib\<lparr>started := True\<rparr>, True)
      (Reply_lib (Reply None (Some \<lparr>results = Some ([] :: nat list), last_seq = JNum 0\<rparr>)))))) =
     [Some (JStr ''now'')]"
  by (simp add: setDefaults_p0_def setDefaults_lib_def step_p0_ok_acts step_lib_ok_acts
        callback_p0_ok_events callback_p0_ok_state callback_lib_ok_events callback_lib_ok_state
        req_p0_since req_lib_since test_lib_def
        del: step_p0.simps step_lib.simps)

text \<open>
  Claim C6, amended. After a successful reply whose \<open>last_seq\<close> is truthy (there, not
  the empty string, not 0) and differs from the position, exactly one \<open>seq\<close> event is
  emitted, carrying \<open>last_seq\<close>, also when the result list is empty; \<open>last_seq\<close> is the
  new position and the \<open>since\<close> of the request that follows. Otherwise no \<open>seq\<close> event
  is emitted and the position is kept.
\<close>

theorem seq_event_on_new_position:
  "(started r \<longrightarrow>
     (if truthy (last_seq d) \<and> last_seq d \<noteq> since r
      then filter is_seq (snd (step_p0 r (Response (Reply None (Some d))))) = [Emit (ESeq (last_seq d))] \<and>
           since (fst (callback_p0 r (Reply None (Some d)))) = last_seq d \<and>
           list_all (\<lambda>a. since_of a = Some (last_seq d))
             (filter is_request (snd (step_p0 r (Response (Reply None (Some d))))))
      else filter is_seq (snd (step_p0 r (Response (Reply None (Some d))))) = [] \<and>
           since (fst (callback_p0 r (Reply None (Some d)))) = since r)) \<and>
   (if truthy (last_seq d) \<and> last_seq d \<noteq> since l
    then filter is_seq (snd (step_lib (l, True) (Reply_lib (Reply None (Some d))))) = [Emit (ESeq (last_seq d))] \<and>
         since (fst (callback_lib l (Reply None (Some d)))) = last_seq d \<and>
         list_all (\<lambda>a. since_of a = Some (last_seq d))
           (filter is_request (snd (step_lib (l, True) (Reply_lib (Reply None (Some d))))))
    else filter is_seq (snd (step_lib (l, True) (Reply_lib (Reply None (Some d))))) = [] \<and>
         since (fst (callback_lib l (Reply None (Some d)))) = since l)"
proof -
  let ?rp = "Reply None (Some d)"
  have nochg: "\<And>xs. filter is_seq (map (\<lambda>c. Emit (EChange c)) xs) = ([] :: 'a action list)"
    by (simp add: filter_empty_conv)
  have p0: "started r \<Longrightarrow> snd (step_p0 r (Response ?rp)) =
      map Emit (fst (snd (callback_p0 r ?rp))) @
      (if continue (fst (callback_p0 r ?rp)) then [Request (req_p0 (fst (callback_p0 r ?rp)))] else [])"
    by (rule step_p0_ok_acts)
  have pseq: "filter is_seq (map Emit (fst (snd (callback_p0 r ?rp)))) =
      (if truthy (last_seq d) \<and> last_seq d \<noteq> since r then [Emit (ESeq (last_seq d))] else [])"
    by (simp add: callback_p0_ok_events nochg comp_def split: option.splits)
  have preq: "filter is_request (map Emit (fst (snd (callback_p0 r ?rp)))) = ([] :: 'a action list)"
    by (simp add: filter_empty_conv)
  have psince: "since (fst (callback_p0 r ?rp)) =
      (if truthy (last_seq d) \<and> last_seq d \<noteq> since r then last_seq d else since r)"
    by (simp add: callback_p0_ok_state)
  have lseq: "filter is_seq (map Emit (fst (snd (callback_lib l ?rp)))) =
      (if truthy (last_seq d) \<and> last_seq d \<noteq> since l then [Emit (ESeq (last_seq d))] else [])"
    by (simp add: callback_lib_ok_events nochg comp_def split: option.splits)
  have lreq: "filter is_request (map Emit (fst (snd (callback_lib l ?rp)))) = ([] :: 'a action list)"
    by (simp add: filter_empty_conv)
  have lsince: "since (fst (callback_lib l ?rp)) =
      (if truthy (last_seq d) \<and> last_seq d \<noteq> since l then last_seq d else since l)"
    by (simp add: callback_lib_ok_state)
  show ?thesis
  proof (intro conjI impI)
    assume st: "started r"
    show "if truthy (last_seq d) \<and> last_seq d \<noteq> since r
      then filter is_seq (snd (step_p0 r (Response ?rp))) = [Emit (ESeq (last_seq d))] \<and>
           since (fst (callback_p0 r ?rp)) = last_seq d \<and>
           list_all (\<lambda>a. since_of a = Some (last_seq d))
             (filter is_request (snd (step_p0 r (Response ?rp))))
      else filter is_seq (snd (step_p0 r (Response ?rp))) = [] \<and>
           since (fst (callback_p0 r ?rp)) = since r"
      using psince by (simp add: p0 [OF st] pseq preq req_p0_since del: step_p0.simps)
  next
    show "if truthy (last_seq d) \<and> last_seq d \<noteq> since l
      then filter is_seq (snd (step_lib (l, True) (Reply_lib ?rp))) = [Emit (ESeq (last_seq d))] \<and>
           since (fst (callback_lib l ?rp)) = last_seq d \<and>
           list_all (\<lambda>a. since_of a = Some (last_seq d))
             (filter is_request (snd (step_lib (l, True) (Reply_lib ?rp))))
      else filter is_seq (snd (step_lib (l, True) (Reply_lib ?rp))) = [] \<and>
           since (fst (callback_lib l ?rp)) = since l"
      using lsince by (simp add: step_lib_ok_acts lseq lreq req_lib_since del: step_lib.simps)
  qed
qed

theorem seq_event_on_new_position_witness:
  "started (setDefaults_p0\<lparr>started := True\<rparr>) \<and>
   truthy (JStr ''1-0'') \<and> JStr ''1-0'' \<noteq> since (setDefaults_p0\<lparr>started := True\<rparr>) \<and>
   filter is_seq (snd (step_p0 (setDefaults_p0\<lparr>started := True\<rparr>)
      (Response (Reply None (Some \<lparr>results = Some ([] :: nat list), last_seq = JStr ''1-0''\<rparr>))))) =
     [Emit (ESeq (JStr ''1-0''))] \<and>
   map since_of (filter is_request (snd (step_p0 (setDefaults_p0\<lparr>started := True\<rparr>)
      (Response (Reply None (Some \<lparr>results = Some ([] :: nat list), last_seq = JStr ''1-0''\<rparr>)))))) =
     [Some (JStr ''1-0'')]"
proof -
  have s: "started (setDefaults_p0\<lparr>started := True\<rparr>)"
    "since (setDefaults_p0\<lparr>started := True\<rparr>) = JStr ''now''"
    "continue (setDefaults_p0\<lparr>started := True\<rparr>)"
    "stopOnEmptyChanges (setDefaults_p0\<lparr>started := True\<rparr>) = False"
    by (simp_all add: setDefaults_p0_def)
  show ?thesis
    using seq_event_on_new_position [of "setDefaults_p0\<lparr>started := True\<rparr>"
                 "\<lparr>results = Some ([] :: nat list), last_seq = JStr ''1-0''\<rparr>"]
    by (simp add: s step_p0_ok_acts callback_p0_ok_events callback_p0_ok_state req_p0_since
          del: step_p0.simps step_lib.simps)
qed

text \<open>
  Claim C7 says that with a ceiling the number of \<open>change\<close> events never exceeds it.
  The reader asks for at most the remaining allowance but emits every record it is sent:
  with ceiling 2, a reply of three records to the request with \<open>limit=2\<close> gives three
  \<open>change\<close> events.
\<close>

theorem over_delivery_counterexample:
  "map limit_of (filter is_request
     (snd (run_lib (setDefaults_lib, False)
        [Start_lib (Some [''maxChanges'' \<mapsto> JNum 2, ''batchSize'' \<mapsto> JNum 5]),
         Reply_lib (Reply None (Some \<lparr>results = Some [''a'', ''b'', ''c''], last_seq = JStr ''3-0''\<rparr>))]))) =
     [Some (JNum 2)] \<and>
   length (filter is_change
     (snd (run_lib (setDefaults_lib, False)
        [Start_lib (Some [''maxChanges'' \<mapsto> JNum 2, ''batchSize'' \<mapsto> JNum 5]),
         Reply_lib (Reply None (Some \<lparr>results = Some [''a'', ''b'', ''c''], last_seq = JStr ''3-0''\<rparr>))]))) = 3"
  by (simp add: start_lib_def setDefaults_lib_def Let_def opt_def limit_lib_def
        Math_min_def js_sub_def to_double_def on_reply_lib_def callback_lib_def next_lib_def test_lib_def num_lt_def
        req_lib_def)

text \<open>
  Claim C7, amended (src/lib/changesreader.js). With a ceiling \<open>m\<close> from 1 to
  \<open>2 ^ 53\<close> and an integer batch size \<open>b\<close> of magnitude at most \<open>2 ^ 53\<close> (so that
  the subtraction of the source is exact): every request is issued with fewer than \<open>m\<close>
  changes delivered and carries \<open>limit\<close> the smaller of \<open>b\<close> and \<open>m\<close> minus the
  changes delivered so far, so none is issued once \<open>m\<close> changes are delivered; and when
  the server sends no more records than \<open>limit\<close> asks for, the number of \<open>change\<close>
  events never exceeds \<open>m\<close>.
\<close>

theorem ceiling_respected:
  assumes "opt opts ''maxChanges'' = JNum m" and "0 < m" and "m \<le> 2 ^ 53"
    and "batchSize (fst (start_lib setDefaults_lib opts)) = JNum b" and "\<bar>b\<bar> \<le> 2 ^ 53"
  shows "requests_clamped b m 0
           (snd (run_lib (setDefaults_lib, False) (Start_lib opts # map Reply_lib rps))) \<and>
         (honours (fst (start_lib setDefaults_lib opts), True) rps \<longrightarrow>
            int (length (filter is_change
              (snd (run_lib (setDefaults_lib, False) (Start_lib opts # map Reply_lib rps))))) \<le> m)"
proof -
  let ?r1 = "fst (start_lib setDefaults_lib opts)"
  have r1: "maxChanges ?r1 = JNum m" "numChanges ?r1 = 0"
    using assms(1,2) by (simp_all add: start_lib_def setDefaults_lib_def Let_def)
  have a1: "snd (start_lib setDefaults_lib opts) = [req_lib ?r1]"
    by (simp add: start_lib_def setDefaults_lib_def Let_def)
  have s1: "step_lib (setDefaults_lib, False) (Start_lib opts) = ((?r1, True), [Request (req_lib ?r1)])"
    using a1 by (cases "start_lib setDefaults_lib opts") (simp add: setDefaults_lib_def)
  have rq: "req_lib ?r1 ''limit'' = Some (JNum (min b (m - 0)))"
    using limit_lib_num [OF assms(4) r1(1) assms(3)] assms(2) by (simp add: req_lib_limit r1(2))
  have "requests_clamped b m (numChanges ?r1) (snd (run_lib (?r1, True) (map Reply_lib rps)))"
    using assms(2,3,4) r1 by (intro lib_requests_clamped) simp_all
  then have rc: "requests_clamped b m 0
      (snd (run_lib (setDefaults_lib, False) (Start_lib opts # map Reply_lib rps)))"
    using rq assms(2) by (simp add: run_lib_Cons s1 r1(2) del: run_lib.simps step_lib.simps)
  have cnt: "int (length (filter is_change
      (snd (run_lib (setDefaults_lib, False) (Start_lib opts # map Reply_lib rps))))) \<le> m"
    if hon: "honours (?r1, True) rps"
    using honours_count [OF assms(4) r1(1) assms(2,3) _ _ hon] assms(2)
    by (simp add: run_lib_Cons s1 r1(2) del: run_lib.simps step_lib.simps)
  show ?thesis
    using rc cnt by blast
qed

theorem ceiling_respected_witness:
  "opt (Some [''maxChanges'' \<mapsto> JNum 3, ''batchSize'' \<mapsto> JNum 2]) ''maxChanges'' = JNum 3 \<and>
   (0 :: int) < 3 \<and> (3 :: int) \<le> 2 ^ 53 \<and> \<bar>2 :: int\<bar> \<le> 2 ^ 53 \<and>
   batchSize (fst (start_lib setDefaults_lib (Some [''maxChanges'' \<mapsto> JNum 3, ''batchSize'' \<mapsto> JNum 2]))) = JNum 2 \<and>
   honours (fst (start_lib setDefaults_lib (Some [''maxChanges'' \<mapsto> JNum 3, ''batchSize'' \<mapsto> JNum 2])), True)
     [Reply None (Some \<lparr>results = Some [''a'', ''b''], last_seq = JStr ''2-0''\<rparr>),
      Reply None (Some \<lparr>results = Some [''c''], last_seq = JStr ''3-0''\<rparr>)] \<and>
   requests_clamped 2 3 0
     (snd (run_lib (setDefaults_lib, False)
        [Start_lib (Some [''maxChanges'' \<mapsto> JNum 3, ''batchSize'' \<mapsto> JNum 2]),
         Reply_lib (Reply None (Some \<lparr>results = Some [''a'', ''b''], last_seq = JStr ''2-0''\<rparr>)),
         Reply_lib (Reply None (Some \<lparr>results = Some [''c''], last_seq = JStr ''3-0''\<rparr>))])) \<and>
   int (length (filter is_change
     (snd (run_lib (setDefaults_lib, False)
        [Start_lib (Some [''maxChanges'' \<mapsto> JNum 3, ''batchSize'' \<mapsto> JNum 2]),
         Reply_lib (Reply None (Some \<lparr>results = Some [''a'', ''b''], last_seq = JStr ''2-0''\<rparr>)),
         Reply_lib (Reply None (Some \<lparr>results = Some [''c''], last_seq = JStr ''3-0''\<rparr>))])))) \<le> 3 \<and>
   map limit_of (filter is_request
     (snd (run_lib (setDefaults_lib, False)
        [Start_lib (Some [''maxChanges'' \<mapsto> JNum 3, ''batchSize'' \<mapsto> JNum 2]),
         Reply_lib (Reply None (Some \<lparr>results = Some [''a'', ''b''], last_seq = JStr ''2-0''\<rparr>)),
         Reply_lib (Reply None (Some \<lparr>results = Some [''c''], last_seq = JStr ''3-0''\<rparr>))]))) =
     [Some (JNum 2), Some (JNum 1)]"
proof -
  let ?opts = "Some [''maxChanges'' \<mapsto> JNum 3, ''batchSize'' \<mapsto> JNum 2]"
  let ?rps = "[Reply None (Some \<lparr>results = Some [''a'', ''b''], last_seq = JStr ''2-0''\<rparr>),
      Reply None (Some \<lparr>results = Some [''c''], last_seq = JStr ''3-0''\<rparr>)]"
  have h1: "opt ?opts ''maxChanges'' = JNum 3" by (simp add: opt_def)
  have h2: "(0 :: int) < 3" "(3 :: int) \<le> 2 ^ 53" by simp_all
  have h5: "\<bar>2 :: int\<bar> \<le> 2 ^ 53" by simp
  have h3: "batchSize (fst (start_lib setDefaults_lib ?opts)) = JNum 2"
    by (simp add: start_lib_def setDefaults_lib_def Let_def opt_def)
  have h4: "honours (fst (start_lib setDefaults_lib ?opts), True) ?rps"
    by (simp add: start_lib_def setDefaults_lib_def Let_def opt_def within_limit_def limit_lib_def
          Math_min_def js_sub_def to_double_def on_reply_lib_def callback_lib_def next_lib_def test_lib_def num_lt_def)
  have ev: "map limit_of (filter is_request
     (snd (run_lib (setDefaults_lib, False) (Start_lib ?opts # map Reply_lib ?rps)))) =
     [Some (JNum 2), Some (JNum 1)]"
    by (simp add: start_lib_def setDefaults_lib_def Let_def opt_def limit_lib_def
          Math_min_def js_sub_def to_double_def on_reply_lib_def callback_lib_def next_lib_def test_lib_def num_lt_def
          req_lib_def)
  show ?thesis
    using h1 h3 h4 ev ceiling_respected [OF h1 h2 h3 h5, of ?rps] by (simp del: run_lib.simps honours.simps)
qed

text \<open>
  Claim C8. In \<open>get\<close> mode, a successful reply whose result list is shorter than the
  requested limit (the batch size) makes the loop emit exactly one \<open>end\<close> event and
  halt: the reader is reset and no request follows, whatever replies are offered. A result
  list that is not shorter emits no \<open>end\<close> event and leaves the \<open>continue\<close> flag as it
  was, so that the next request follows unless \<open>stop\<close> was called.
\<close>

theorem get_stops_on_short_batch:
  assumes "started r" and "stopOnEmptyChanges r" and "batchSize r = JNum b"
    and "results d = Some xs"
  shows "(int (length xs) < b \<longrightarrow>
            fst (run_p0 r (Response (Reply None (Some d)) # map Response rps)) = setDefaults_p0 \<and>
            length (filter is_end (snd (run_p0 r (Response (Reply None (Some d)) # map Response rps)))) = 1 \<and>
            \<not> list_ex is_request (snd (run_p0 r (Response (Reply None (Some d)) # map Response rps)))) \<and>
         (\<not> int (length xs) < b \<longrightarrow>
            \<not> list_ex is_end (snd (step_p0 r (Response (Reply None (Some d))))) \<and>
            continue (fst (callback_p0 r (Reply None (Some d)))) = continue r \<and>
            (continue r \<longrightarrow>
               filter is_request (snd (step_p0 r (Response (Reply None (Some d))))) =
                 [Request (req_p0 (fst (step_p0 r (Response (Reply None (Some d))))))] \<and>
               started (fst (step_p0 r (Response (Reply None (Some d))))) \<and>
               continue (fst (step_p0 r (Response (Reply None (Some d)))))))"
proof -
  let ?rp = "Reply None (Some d)"
  have fin: "num_lt (int (length xs)) (batchSize r) \<longleftrightarrow> int (length xs) < b"
    using assms(3) by (simp add: num_lt_def)
  have st: "fst (callback_p0 r ?rp) =
      r\<lparr>since := (if truthy (last_seq d) \<and> last_seq d \<noteq> since r then last_seq d else since r),
        continue := (continue r \<and> \<not> int (length xs) < b)\<rparr>"
    using assms fin by (simp add: callback_p0_ok_state)
  have ev: "fst (snd (callback_p0 r ?rp)) =
      (if xs = [] then [] else map EChange xs @ [EBatch xs]) @
      (if truthy (last_seq d) \<and> last_seq d \<noteq> since r then [ESeq (last_seq d)] else []) @
      (if int (length xs) < b then [EEnd] else [])"
    using assms fin by (simp add: callback_p0_ok_events)
  have noreq: "filter is_request (map Emit (fst (snd (callback_p0 r ?rp)))) = ([] :: 'a action list)"
    by (simp add: filter_empty_conv)
  have short: "fst (run_p0 r (Response ?rp # map Response rps)) = setDefaults_p0 \<and>
      length (filter is_end (snd (run_p0 r (Response ?rp # map Response rps)))) = 1 \<and>
      \<not> list_ex is_request (snd (run_p0 r (Response ?rp # map Response rps)))"
    if lt: "int (length xs) < b"
  proof -
    have s1: "fst (step_p0 r (Response ?rp)) = setDefaults_p0"
      using assms(1) lt by (simp add: step_p0_ok_state st del: step_p0.simps)
    have a1: "snd (step_p0 r (Response ?rp)) = map Emit (fst (snd (callback_p0 r ?rp)))"
      using assms(1) lt by (simp add: step_p0_ok_acts st del: step_p0.simps)
    have rest: "run_p0 setDefaults_p0 (map Response rps) = (setDefaults_p0, [])"
      by (rule run_p0_idle [OF setDefaults_p0_idle])
    have run: "run_p0 r (Response ?rp # map Response rps) =
        (setDefaults_p0, map Emit (fst (snd (callback_p0 r ?rp))))"
      by (simp add: run_p0_Cons s1 a1 rest del: step_p0.simps run_p0.simps)
    show ?thesis
      using lt by (simp add: run ev no_end_in_changes no_request_in_events comp_def
          del: step_p0.simps run_p0.simps)
  qed
  have full: "\<not> list_ex is_end (snd (step_p0 r (Response ?rp))) \<and>
      continue (fst (callback_p0 r ?rp)) = continue r"
    if ge: "\<not> int (length xs) < b"
  proof -
    have a2: "snd (step_p0 r (Response ?rp)) =
        map Emit (fst (snd (callback_p0 r ?rp))) @
        (if continue r then [Request (req_p0 (fst (callback_p0 r ?rp)))] else [])"
      using assms(1) ge by (simp add: step_p0_ok_acts st del: step_p0.simps)
    show ?thesis
      using ge by (auto simp add: a2 ev st list_ex_iff simp del: step_p0.simps)
  qed
  have goes_on: "filter is_request (snd (step_p0 r (Response ?rp))) =
        [Request (req_p0 (fst (step_p0 r (Response ?rp))))] \<and>
      started (fst (step_p0 r (Response ?rp))) \<and>
      continue (fst (step_p0 r (Response ?rp)))"
    if ge: "\<not> int (length xs) < b" and c: "continue r"
  proof -
    have s2: "fst (step_p0 r (Response ?rp)) = fst (callback_p0 r ?rp)"
      using assms(1) ge c by (simp add: step_p0_ok_state st del: step_p0.simps)
    have a2: "snd (step_p0 r (Response ?rp)) =
        map Emit (fst (snd (callback_p0 r ?rp))) @ [Request (req_p0 (fst (callback_p0 r ?rp)))]"
      using assms(1) ge c by (simp add: step_p0_ok_acts st del: step_p0.simps)
    show ?thesis
      using assms(1) ge c noreq by (simp add: a2 s2 st del: step_p0.simps)
  qed
  show ?thesis
    using short full goes_on by blast
qed

theorem get_stops_on_short_batch_witness:
  "started (fst (get_p0 setDefaults_p0 None)) \<and>
   stopOnEmptyChanges (fst (get_p0 setDefaults_p0 None)) \<and>
   batchSize (fst (get_p0 setDefaults_p0 None)) = JNum 100 \<and>
   int (length [''a'']) < 100 \<and>
   fst (run_p0 (fst (get_p0 setDefaults_p0 None))
         [Response (Reply None (Some \<lparr>results = Some [''a''], last_seq = JStr ''1-0''\<rparr>))])
     = setDefaults_p0 \<and>
   length (filter is_end (snd (run_p0 (fst (get_p0 setDefaults_p0 None))
         [Response (Reply None (Some \<lparr>results = Some [''a''], last_seq = JStr ''1-0''\<rparr>))]))) = 1 \<and>
   \<not> list_ex is_request (snd (run_p0 (fst (get_p0 setDefaults_p0 None))
         [Response (Reply None (Some \<lparr>results = Some [''a''], last_seq = JStr ''1-0''\<rparr>))])) \<and>
   started (fst (get_p0 setDefaults_p0 (Some [''batchSize'' \<mapsto> JNum 1]))) \<and>
   stopOnEmptyChanges (fst (get_p0 setDefaults_p0 (Some [''batchSize'' \<mapsto> JNum 1]))) \<and>
   batchSize (fst (get_p0 setDefaults_p0 (Some [''batchSize'' \<mapsto> JNum 1]))) = JNum 1 \<and>
   continue (fst (get_p0 setDefaults_p0 (Some [''batchSize'' \<mapsto> JNum 1]))) \<and>
   \<not> int (length [''a'']) < 1 \<and>
   \<not> list_ex is_end (snd (step_p0 (fst (get_p0 setDefaults_p0 (Some [''batchSize'' \<mapsto> JNum 1])))
         (Response (Reply None (Some \<lparr>results = Some [''a''], last_seq = JStr ''1-0''\<rparr>))))) \<and>
   map since_of (filter is_request
      (snd (step_p0 (fst (get_p0 setDefaults_p0 (Some [''batchSize'' \<mapsto> JNum 1])))
         (Response (Reply None (Some \<lparr>results = Some [''a''], last_seq = JStr ''1-0''\<rparr>)))))) =
     [Some (JStr ''1-0'')]"
proof -
  let ?d = "\<lparr>results = Some [''a''], last_seq = JStr ''1-0''\<rparr>"
  have h: "started (fst (get_p0 setDefaults_p0 None))"
    "stopOnEmptyChanges (fst (get_p0 setDefaults_p0 None))"
    "batchSize (fst (get_p0 setDefaults_p0 None)) = JNum 100"
    by (simp_all add: get_p0_def start_p0_def setDefaults_p0_def opt_def Let_def)
  have g: "started (fst (get_p0 setDefaults_p0 (Some [''batchSize'' \<mapsto> JNum 1])))"
    "stopOnEmptyChanges (fst (get_p0 setDefaults_p0 (Some [''batchSize'' \<mapsto> JNum 1])))"
    "batchSize (fst (get_p0 setDefaults_p0 (Some [''batchSize'' \<mapsto> JNum 1]))) = JNum 1"
    by (simp_all add: get_p0_def start_p0_def setDefaults_p0_def opt_def Let_def)
  have c: "continue (fst (get_p0 setDefaults_p0 (Some [''batchSize'' \<mapsto> JNum 1])))"
    "since (fst (get_p0 setDefaults_p0 (Some [''batchSize'' \<mapsto> JNum 1]))) = JStr ''now''"
    by (simp_all add: get_p0_def start_p0_def setDefaults_p0_def opt_def Let_def)
  have d: "results ?d = Some [''a'']"
    by simp
  have s: "since (fst (step_p0 (fst (get_p0 setDefaults_p0 (Some [''batchSize'' \<mapsto> JNum 1])))
      (Response (Reply None (Some ?d))))) = JStr ''1-0''"
    using g c by (simp add: step_p0_ok_state callback_p0_ok_state num_lt_def del: step_p0.simps)
  show ?thesis
    using h g c s
      get_stops_on_short_batch [OF h d, of "[]"]
      get_stops_on_short_batch [OF g d, of "[]"]
    by (simp add: req_p0_since del: step_p0.simps run_p0.simps)
qed

text \<open>
  Claim C9. In \<open>get\<close> mode, a successful reply with no \<open>results\<close> field emits no
  \<open>end\<close> event (and no \<open>change\<close> event) and leaves the \<open>continue\<close> flag as it was:
  unless \<open>stop\<close> was called, the next request is issued and the reader stays started.
\<close>

theorem get_missing_results_continues:
  assumes "started r" and "stopOnEmptyChanges r" and "results d = None"
  shows "\<not> list_ex is_end (snd (step_p0 r (Response (Reply None (Some d))))) \<and>
         \<not> list_ex is_change (snd (step_p0 r (Response (Reply None (Some d))))) \<and>
         continue (fst (callback_p0 r (Reply None (Some d)))) = continue r \<and>
         (continue r \<longrightarrow>
            filter is_request (snd (step_p0 r (Response (Reply None (Some d))))) =
              [Request (req_p0 (fst (step_p0 r (Response (Reply None (Some d))))))] \<and>
            started (fst (step_p0 r (Response (Reply None (Some d))))) \<and>
            continue (fst (step_p0 r (Response (Reply None (Some d))))))"
proof -
  let ?rp = "Reply None (Some d)"
  have st: "fst (callback_p0 r ?rp) =
      r\<lparr>since := (if truthy (last_seq d) \<and> last_seq d \<noteq> since r then last_seq d else since r)\<rparr>"
    using assms by (simp add: callback_p0_ok_state)
  have ev: "fst (snd (callback_p0 r ?rp)) =
      (if truthy (last_seq d) \<and> last_seq d \<noteq> since r then [ESeq (last_seq d)] else [])"
    using assms by (simp add: callback_p0_ok_events)
  have s: "fst (step_p0 r (Response ?rp)) =
      (if continue r then fst (callback_p0 r ?rp) else setDefaults_p0)"
    using assms by (simp add: step_p0_ok_state st del: step_p0.simps)
  have a: "snd (step_p0 r (Response ?rp)) =
      map Emit (fst (snd (callback_p0 r ?rp))) @
      (if continue r then [Request (req_p0 (fst (callback_p0 r ?rp)))] else [])"
    using assms by (simp add: step_p0_ok_acts st del: step_p0.simps)
  show ?thesis
    using assms(1) by (simp add: s a ev st del: step_p0.simps)
qed

theorem get_missing_results_continues_witness:
  "started (fst (get_p0 setDefaults_p0 None)) \<and>
   stopOnEmptyChanges (fst (get_p0 setDefaults_p0 None)) \<and>
   continue (fst (get_p0 setDefaults_p0 None)) \<and>
   \<not> list_ex is_end (snd (step_p0 (fst (get_p0 setDefaults_p0 None))
       (Response (Reply None (Some \<lparr>results = (None :: string list option), last_seq = JStr ''1-0''\<rparr>))))) \<and>
   map since_of (filter is_request (snd (step_p0 (fst (get_p0 setDefaults_p0 None))
       (Response (Reply None (Some \<lparr>results = (None :: string list option), last_seq = JStr ''1-0''\<rparr>))))))
     = [Some (JStr ''1-0'')]"
proof -
  let ?d = "\<lparr>results = (None :: string list option), last_seq = JStr ''1-0''\<rparr>"
  have h: "started (fst (get_p0 setDefaults_p0 None))"
    "stopOnEmptyChanges (fst (get_p0 setDefaults_p0 None))"
    by (simp_all add: get_p0_def start_p0_def setDefaults_p0_def opt_def Let_def)
  have c: "continue (fst (get_p0 setDefaults_p0 None))"
    "since (fst (get_p0 setDefaults_p0 None)) = JStr ''now''"
    by (simp_all add: get_p0_def start_p0_def setDefaults_p0_def opt_def Let_def)
  have d: "results ?d = None"
    by simp
  have s: "since (fst (step_p0 (fst (get_p0 setDefaults_p0 None)) (Response (Reply None (Some ?d))))) =
      JStr ''1-0''"
    using h c by (simp add: step_p0_ok_state callback_p0_ok_state del: step_p0.simps)
  show ?thesis
    using h c s get_missing_results_continues [OF h d]
    by (simp add: req_p0_since del: step_p0.simps)
qed

text \<open>
  Claim C10. An option passed to \<open>start\<close> (or \<open>get\<close>) with a falsy value is ignored
  and the default is kept: \<open>batchSize\<close> stays 100, \<open>include_docs\<close> stays false,
  \<open>maxChanges\<close> stays 0, and with \<open>since\<close> 0 or the empty string the first request asks
  for \<open>since=now\<close>.
\<close>

theorem falsy_options_ignored:
  "(\<not> truthy (opt opts ''batchSize'') \<longrightarrow>
      batchSize (fst (start_lib setDefaults_lib opts)) = JNum 100 \<and>
      batchSize (fst (start_p0 setDefaults_p0 opts)) = JNum 100 \<and>
      batchSize (fst (get_p0 setDefaults_p0 opts)) = JNum 100) \<and>
   (\<not> truthy (opt opts ''since'') \<longrightarrow>
      map (\<lambda>q. q ''since'') (snd (start_lib setDefaults_lib opts)) = [Some (JStr ''now'')] \<and>
      map (\<lambda>q. q ''since'') (snd (start_p0 setDefaults_p0 opts)) = [Some (JStr ''now'')] \<and>
      map (\<lambda>q. q ''since'') (snd (get_p0 setDefaults_p0 opts)) = [Some (JStr ''now'')]) \<and>
   (\<not> truthy (opt opts ''include_docs'') \<longrightarrow>
      include_docs (fst (start_lib setDefaults_lib opts)) = JBool False) \<and>
   (\<not> truthy (opt opts ''maxChanges'') \<longrightarrow>
      maxChanges (fst (start_lib setDefaults_lib opts)) = JNum 0)"
  by (simp add: start_lib_def start_p0_def get_p0_def setDefaults_lib_def setDefaults_p0_def
        Let_def req_p0_since req_lib_since)

theorem falsy_options_ignored_witness:
  "\<not> truthy (JNum 0) \<and> \<not> truthy (JStr []) \<and> \<not> truthy (JBool False) \<and>
   batchSize (fst (start_lib setDefaults_lib
      (Some [''batchSize'' \<mapsto> JNum 0, ''since'' \<mapsto> JNum 0, ''include_docs'' \<mapsto> JBool False,
             ''maxChanges'' \<mapsto> JNum 0]))) = JNum 100 \<and>
   map (\<lambda>q. q ''since'') (snd (start_lib setDefaults_lib
      (Some [''batchSize'' \<mapsto> JNum 0, ''since'' \<mapsto> JNum 0, ''include_docs'' \<mapsto> JBool False,
             ''maxChanges'' \<mapsto> JNum 0]))) = [Some (JStr ''now'')] \<and>
   map (\<lambda>q. q ''since'') (snd (start_p0 setDefaults_p0
      (Some [''batchSize'' \<mapsto> JNum 0, ''since'' \<mapsto> JNum 0, ''include_docs'' \<mapsto> JBool False,
             ''maxChanges'' \<mapsto> JNum 0]))) = [Some (JStr ''now'')] \<and>
   map (\<lambda>q. q ''since'') (snd (start_p0 setDefaults_p0 (Some [''since'' \<mapsto> JStr []]))) =
     [Some (JStr ''now'')]"
  using falsy_options_ignored [of "Some [''batchSize'' \<mapsto> JNum 0, ''since'' \<mapsto> JNum 0,
                       ''include_docs'' \<mapsto> JBool False, ''maxChanges'' \<mapsto> JNum 0]"]
    falsy_options_ignored [of "Some [''since'' \<mapsto> JStr []]"]
  by (simp add: opt_def)

end
